theory Spec2Isabelle
  imports Complex_Main
begin

section \<open>Data model of the burn-after-reading plugin\<close>

text \<open>
  The plugin (\<^verbatim>\<open>src/index.ts\<close>) keeps two database tables, arms one-shot timers and talks
  to a messaging platform through a bot. The embedding makes all of that explicit:
  the two tables, the armed timers, the clock, the log and the sequence of platform
  calls form a \<open>world\<close> that every operation takes and returns.

  JavaScript numbers of the configuration are taken as exact rationals; \<open>maxUsers\<close>
  is a count and is compared with an array length only, so it is a natural number.
  Instants are milliseconds, as \<^verbatim>\<open>Date.getTime()\<close> gives them.
\<close>

record Config =
  recallDelay :: rat
  maxDuration :: rat
  maxUsers :: nat
  batchRecallInterval :: rat

text \<open>Row of the table \<^verbatim>\<open>burn_after_reading_users\<close>.\<close>

record BurnAfterReadingUser =
  u_id :: nat
  u_userId :: string
  u_guildId :: string
  u_channelId :: string
  enabledAt :: int
  expiresAt :: int

text \<open>Row of the table \<^verbatim>\<open>burn_after_reading_messages\<close>.\<close>

record BurnAfterReadingMessage =
  m_id :: nat
  messageId :: string
  m_userId :: string
  m_guildId :: string
  m_channelId :: string
  sentAt :: int

datatype GroupRole = role_member | role_admin | role_owner

text \<open>
  The texts the plugin sends with \<^verbatim>\<open>session.send\<close> and \<^verbatim>\<open>bot.sendMessage\<close>. Each
  constructor stands for one template of the source and keeps the values the template
  interpolates.
\<close>

datatype notice =
    EnabledNotice rat rat       \<comment> \<open>activation notice: maxDuration, recallDelay\<close>
  | ClosedNotice rat            \<comment> \<open>closing notice: recallDelay\<close>
  | ExpiredNotice string rat    \<comment> \<open>expiry notice: userId, recallDelay\<close>
  | ThanksNotice                \<comment> \<open>completion notice of a burn\<close>

text \<open>The calls made on the platform, in the order they are made.\<close>

datatype event =
    SendMessage string string notice     \<comment> \<open>bot, channel, text\<close>
  | DeleteMessage string string string   \<comment> \<open>bot, channel, message id\<close>
  | Sleep rat                            \<comment> \<open>\<^verbatim>\<open>setTimeout\<close> awaited for so many milliseconds\<close>

datatype level = Debug | Info | Warn | Error

datatype log_text =
    CheckBotPermissionFailed
  | CheckUserRoleFailed
  | StoreMessageFailed
  | NothingToRecall string string
  | RecallStarted string nat
  | Recalled string
  | RecallFailed string
  | RecallFinished string
  | SessionExpired string string
  | StoreExpireNoticeFailed
  | ExpireHandlingFailed
  | GetGuildFailed
  | StoreNoticeFailed
  | StoreCloseNoticeFailed
  | PluginLoaded

text \<open>A timer armed by \<^verbatim>\<open>ctx.setTimeout\<close>: the values its callback closes over, the
  instant it was armed at and the delay it was given.\<close>

record timer =
  t_userId :: string
  t_guildId :: string
  t_channelId :: string
  t_botId :: string
  t_armedAt :: int
  t_delay :: int

record world =
  users :: "BurnAfterReadingUser list"
  user_seq :: nat
  messages :: "BurnAfterReadingMessage list"
  message_seq :: nat
  timers :: "timer list"
  trace :: "event list"
  logs :: "(level \<times> log_text) list"
  now :: int

text \<open>Result of \<^verbatim>\<open>bot.getGuild\<close>: the call throws, or yields a falsy value, or an object
  with a name.\<close>

datatype guild_result = GuildThrows | GuildMissing | Guild string

text \<open>
  The external collaborators. Their answers are parameters of the model:
  \<^item> \<open>bots\<close> are the keys of \<^verbatim>\<open>ctx.bots\<close> in order;
  \<^item> \<open>getGroupMemberInfo bot guild user\<close> is the role the platform reports, \<open>None\<close>
    when the call throws;
  \<^item> \<open>sendMessage bot channel text\<close> is the list of message ids the platform returns,
    \<open>None\<close> when the call throws;
  \<^item> \<open>deleteMessage bot channel id\<close> tells whether the platform deletes the message
    (\<open>False\<close>: the call throws);
  \<^item> \<open>createFails id\<close> tells whether the write of the ledger row for message \<open>id\<close>
    is rejected, for the writes whose rejection the source handles with \<^verbatim>\<open>.catch\<close>;
  \<^item> \<open>elapsed t\<close> is the number of milliseconds that pass between a reading of the clock
    at instant \<open>t\<close> and the next reading of it by the same handler.
  The other store operations are awaited without a handler of their own and are taken to
  succeed. The store returns rows in insertion order.
\<close>

record env =
  config :: Config
  bots :: "string list"
  getGroupMemberInfo :: "string \<Rightarrow> string \<Rightarrow> string \<Rightarrow> GroupRole option"
  getGuild :: "string \<Rightarrow> string \<Rightarrow> guild_result"
  sendMessage :: "string \<Rightarrow> string \<Rightarrow> notice \<Rightarrow> string list option"
  deleteMessage :: "string \<Rightarrow> string \<Rightarrow> string \<Rightarrow> bool"
  createFails :: "string \<Rightarrow> bool"
  elapsed :: "int \<Rightarrow> nat"

section \<open>Primitive effects\<close>

definition logger :: "level \<Rightarrow> log_text \<Rightarrow> world \<Rightarrow> world" where
  "logger l t w = w\<lparr>logs := logs w @ [(l, t)]\<rparr>"

definition emit :: "event \<Rightarrow> world \<Rightarrow> world" where
  "emit ev w = w\<lparr>trace := trace w @ [ev]\<rparr>"

text \<open>
  The time after which \<^verbatim>\<open>setTimeout(f, ms)\<close> may run \<open>f\<close>: the fraction of a millisecond
  is dropped, and a delay below 1 or above \<open>2^31 - 1\<close> is taken as 1.
\<close>

definition timeoutDelay :: "rat \<Rightarrow> int" where
  "timeoutDelay ms = (if 1 \<le> ms \<and> ms \<le> 2147483647 then \<lfloor>ms\<rfloor> else 1)"

text \<open>Awaiting \<^verbatim>\<open>setTimeout(resolve, ms)\<close>: the call is recorded and the clock moves to
  the earliest instant at which the timer resumes the handler.\<close>

definition sleep :: "rat \<Rightarrow> world \<Rightarrow> world" where
  "sleep ms w = (emit (Sleep ms) w)\<lparr>now := now w + timeoutDelay ms\<rparr>"

text \<open>The world at the next reading of the clock by the handler that has read it at
  \<open>now w\<close>.\<close>

definition later :: "env \<Rightarrow> world \<Rightarrow> world" where
  "later e w = w\<lparr>now := now w + int (elapsed e (now w))\<rparr>"

text \<open>\<^verbatim>\<open>ctx.database.create('burn_after_reading_messages', ...)\<close> with an
  auto-incremented id.\<close>

definition createMessage ::
  "string \<Rightarrow> string \<Rightarrow> string \<Rightarrow> string \<Rightarrow> int \<Rightarrow> world \<Rightarrow> world" where
  "createMessage mid userId guildId channelId ts w =
     w\<lparr>messages := messages w @
          [\<lparr>m_id = message_seq w, messageId = mid, m_userId = userId,
            m_guildId = guildId, m_channelId = channelId, sentAt = ts\<rparr>],
       message_seq := Suc (message_seq w)\<rparr>"

text \<open>The same write followed by \<^verbatim>\<open>.catch(err => ctx.logger.warn(..., err))\<close>.\<close>

definition createMessageCatch ::
  "env \<Rightarrow> log_text \<Rightarrow> string \<Rightarrow> string \<Rightarrow> string \<Rightarrow> string \<Rightarrow> int \<Rightarrow> world \<Rightarrow> world" where
  "createMessageCatch e onFail mid userId guildId channelId ts w =
     (if createFails e mid then logger Warn onFail w
      else createMessage mid userId guildId channelId ts w)"

section \<open>The batch recall engine\<close>

text \<open>
  The body of \<^verbatim>\<open>for (const msg of messages)\<close> in \<^verbatim>\<open>batchRecallMessages\<close>. \<open>n\<close> is
  \<^verbatim>\<open>messages.length\<close> and \<open>i\<close> the position of \<open>msg\<close>: the array holds one object per
  row, and \<^verbatim>\<open>messages.indexOf(msg)\<close> compares object identity, so it is the position
  of the iteration.
\<close>

fun recallEach ::
  "env \<Rightarrow> string \<Rightarrow> nat \<Rightarrow> nat \<Rightarrow> BurnAfterReadingMessage list \<Rightarrow> world \<Rightarrow> world" where
  "recallEach e botId n i [] w = w"
| "recallEach e botId n i (msg # rest) w =
     (let w1 = emit (DeleteMessage botId (m_channelId msg) (messageId msg)) w;
          w2 = (if deleteMessage e botId (m_channelId msg) (messageId msg)
                then (logger Info (Recalled (messageId msg)) w1)
                       \<lparr>messages := filter (\<lambda>r. m_id r \<noteq> m_id msg) (messages w1)\<rparr>
                else logger Warn (RecallFailed (messageId msg)) w1);
          w3 = (if int i < int n - 1
                then sleep (batchRecallInterval (config e) * 1000) w2 else w2)
      in recallEach e botId n (Suc i) rest w3)"

definition ledgerOf :: "string \<Rightarrow> string \<Rightarrow> world \<Rightarrow> BurnAfterReadingMessage list" where
  "ledgerOf userId guildId w =
     filter (\<lambda>m. m_userId m = userId \<and> m_guildId m = guildId) (messages w)"

definition batchRecallMessages ::
  "env \<Rightarrow> string \<Rightarrow> string \<Rightarrow> string \<Rightarrow> string \<Rightarrow> world \<Rightarrow> world" where
  "batchRecallMessages e userId guildId channelId botId w =
     (let msgs = ledgerOf userId guildId w in
      if length msgs = 0 then logger Info (NothingToRecall userId guildId) w
      else
        let w1 = logger Info (RecallStarted userId (length msgs)) w;
            w2 = sleep (recallDelay (config e) * 1000) w1;
            w3 = recallEach e botId (length msgs) 0 msgs w2;
            w4 = emit (SendMessage botId channelId ThanksNotice) w3
        in logger Info (RecallFinished userId) w4)"

definition burnAfterReading ::
  "env \<Rightarrow> string \<Rightarrow> string \<Rightarrow> string \<Rightarrow> string \<Rightarrow> world \<Rightarrow> world" where
  "burnAfterReading e userId guildId channelId botId w =
     batchRecallMessages e userId guildId channelId botId
       (w\<lparr>users := filter (\<lambda>u. \<not> (u_userId u = userId \<and> u_guildId u = guildId)) (users w)\<rparr>)"

section \<open>The expiration scheduler\<close>

definition scheduleExpiration ::
  "string \<Rightarrow> string \<Rightarrow> string \<Rightarrow> int \<Rightarrow> string \<Rightarrow> world \<Rightarrow> world" where
  "scheduleExpiration userId guildId channelId expAt botId w =
     (let delay = expAt - now w in
      if delay \<le> 0 then w
      else w\<lparr>timers := timers w @
                [\<lparr>t_userId = userId, t_guildId = guildId, t_channelId = channelId,
                  t_botId = botId, t_armedAt = now w, t_delay = delay\<rparr>]\<rparr>)"

text \<open>The earliest instant at which the platform runs the callback of a timer.\<close>

definition firesAt :: "timer \<Rightarrow> int" where
  "firesAt t = t_armedAt t + timeoutDelay (of_int (t_delay t))"

text \<open>The callback given to \<^verbatim>\<open>ctx.setTimeout\<close> in \<^verbatim>\<open>scheduleExpiration\<close>. A send that
  throws leaves the \<^verbatim>\<open>try\<close> block before the burn.\<close>

definition onExpire :: "env \<Rightarrow> timer \<Rightarrow> world \<Rightarrow> world" where
  "onExpire e t w =
     (let userId = t_userId t; guildId = t_guildId t; channelId = t_channelId t;
          botId = t_botId t;
          w1 = logger Info (SessionExpired userId guildId) w;
          text = ExpiredNotice userId (recallDelay (config e));
          w2 = emit (SendMessage botId channelId text) w1
      in case sendMessage e botId channelId text of
           None \<Rightarrow> logger Warn ExpireHandlingFailed w2
         | Some expireNotificationMsg \<Rightarrow>
             burnAfterReading e userId guildId channelId botId
               (case expireNotificationMsg of
                  [] \<Rightarrow> w2
                | mid # _ \<Rightarrow>
                    createMessageCatch e StoreExpireNoticeFailed mid userId guildId channelId
                      (now w2) w2))"

section \<open>Commands\<close>

text \<open>The fields of a Koishi session that the plugin reads. \<open>s_guildId\<close> and
  \<open>s_messageId\<close> may be undefined; \<open>s_botId\<close> is \<^verbatim>\<open>session.bot\<close>.\<close>

record Session =
  s_userId :: string
  s_guildId :: "string option"
  s_channelId :: string
  s_messageId :: "string option"
  s_botId :: string

text \<open>An undefined id and the empty string are both falsy in JavaScript: \<open>guildOf s = []\<close>
  is \<^verbatim>\<open>!session.guildId\<close>, and \<open>messageOf s = []\<close> is \<^verbatim>\<open>!session.messageId\<close>.\<close>

definition guildOf :: "Session \<Rightarrow> string" where
  "guildOf s = (case s_guildId s of None \<Rightarrow> [] | Some g \<Rightarrow> g)"

definition messageOf :: "Session \<Rightarrow> string" where
  "messageOf s = (case s_messageId s of None \<Rightarrow> [] | Some m \<Rightarrow> m)"

text \<open>The strings a command action returns, which Koishi sends to the caller.\<close>

datatype reply =
    OnlyInGroup
  | BotLacksPermission
  | UserOutranksBot
  | AlreadyEnabledHere
  | AlreadyEnabledElsewhere string   \<comment> \<open>\<^verbatim>\<open>guildInfo\<close>\<close>
  | GroupFull nat                    \<comment> \<open>\<^verbatim>\<open>config.maxUsers\<close>\<close>
  | NotEnabledHere
  | EnabledElsewhere string          \<comment> \<open>\<^verbatim>\<open>guildInfo\<close>\<close>

text \<open>How a command action ends: it returns a string, returns nothing, or throws.\<close>

datatype outcome = Replied reply | Silent | Threw

definition checkBotPermission :: "env \<Rightarrow> Session \<Rightarrow> world \<Rightarrow> bool \<times> world" where
  "checkBotPermission e s w =
     (if guildOf s = [] then (False, w)
      else case getGroupMemberInfo e (s_botId s) (guildOf s) (s_botId s) of
             None \<Rightarrow> (False, logger Warn CheckBotPermissionFailed w)
           | Some botRole \<Rightarrow> (if botRole = role_member then (False, w) else (True, w)))"

definition checkUserRole :: "env \<Rightarrow> Session \<Rightarrow> world \<Rightarrow> bool \<times> world" where
  "checkUserRole e s w =
     (if guildOf s = [] then (False, w)
      else case getGroupMemberInfo e (s_botId s) (guildOf s) (s_userId s) of
             None \<Rightarrow> (False, logger Warn CheckUserRoleFailed w)
           | Some userRole \<Rightarrow>
               (case getGroupMemberInfo e (s_botId s) (guildOf s) (s_botId s) of
                  None \<Rightarrow> (False, logger Warn CheckUserRoleFailed w)
                | Some botRole \<Rightarrow>
                    (if userRole = role_owner \<or> (userRole = role_admin \<and> botRole \<noteq> role_owner)
                     then (False, w) else (True, w))))"

text \<open>The full-width parentheses of the template \<^verbatim>\<open>${guild.name}(${guildId})\<close>, as UTF-8.\<close>

definition lparen :: string where
  "lparen = [CHR 0xEF, CHR 0xBC, CHR 0x88]"

definition rparen :: string where
  "rparen = [CHR 0xEF, CHR 0xBC, CHR 0x89]"

text \<open>The computation of \<^verbatim>\<open>guildInfo\<close>, shared by both commands.\<close>

definition guildInfo :: "env \<Rightarrow> string \<Rightarrow> string \<Rightarrow> world \<Rightarrow> string \<times> world" where
  "guildInfo e botId guildId w =
     (case getGuild e botId guildId of
        GuildThrows \<Rightarrow> (guildId, logger Debug GetGuildFailed w)
      | GuildMissing \<Rightarrow> (guildId, w)
      | Guild name \<Rightarrow> (if name \<noteq> [] then (name @ lparen @ guildId @ rparen, w) else (guildId, w)))"

text \<open>\<^verbatim>\<open>new Date(ms)\<close> drops the fraction of a millisecond (towards zero).\<close>

definition timeClip :: "rat \<Rightarrow> int" where
  "timeClip x = (if 0 \<le> x then \<lfloor>x\<rfloor> else \<lceil>x\<rceil>)"

definition createUser :: "string \<Rightarrow> string \<Rightarrow> string \<Rightarrow> int \<Rightarrow> int \<Rightarrow> world \<Rightarrow> world" where
  "createUser userId guildId channelId ts expAt w =
     w\<lparr>users := users w @
          [\<lparr>u_id = user_seq w, u_userId = userId, u_guildId = guildId,
            u_channelId = channelId, enabledAt = ts, expiresAt = expAt\<rparr>],
       user_seq := Suc (user_seq w)\<rparr>"

subsection \<open>Enabling\<close>

text \<open>
  The action of the enable command, cut at the database calls it awaits. Each part is the
  database call together with the synchronous code that runs on its result:
  \<^item> \<open>enableChecks\<close>: group context, the two permission checks, and the query by
    \<^verbatim>\<open>userId\<close> alone with the rejection it may lead to;
  \<^item> \<open>enableCapacity\<close>: the query by \<^verbatim>\<open>guildId\<close> and the capacity check;
  \<^item> \<open>createUser\<close>: the write of the session row;
  \<^item> \<open>enableFinish\<close>: the ledger row of the command message, the timer, the notice
    and its ledger row. \<^verbatim>\<open>scheduleExpiration\<close> reads the clock anew, after the two
    awaited writes.
\<close>

definition enableChecks :: "env \<Rightarrow> Session \<Rightarrow> world \<Rightarrow> reply option \<times> world" where
  "enableChecks e s w =
     (if guildOf s = [] then (Some OnlyInGroup, w)
      else
        let (hasPermission, w1) = checkBotPermission e s w in
        if \<not> hasPermission then (Some BotLacksPermission, w1)
        else
          let (hasRole, w2) = checkUserRole e s w1 in
          if \<not> hasRole then (Some UserOutranksBot, w2)
          else
            (case filter (\<lambda>u. u_userId u = s_userId s) (users w2) of
               [] \<Rightarrow> (None, w2)
             | existingRecord # _ \<Rightarrow>
                 if u_guildId existingRecord = guildOf s then (Some AlreadyEnabledHere, w2)
                 else
                   let (info, w3) = guildInfo e (s_botId s) (u_guildId existingRecord) w2
                   in (Some (AlreadyEnabledElsewhere info), w3)))"

definition enableCapacity :: "env \<Rightarrow> Session \<Rightarrow> world \<Rightarrow> reply option" where
  "enableCapacity e s w =
     (let activeUsers = filter (\<lambda>u. u_guildId u = guildOf s) (users w) in
      if length activeUsers \<ge> maxUsers (config e) then Some (GroupFull (maxUsers (config e)))
      else None)"

definition enableFinish :: "env \<Rightarrow> Session \<Rightarrow> int \<Rightarrow> int \<Rightarrow> world \<Rightarrow> outcome \<times> world" where
  "enableFinish e s ts expAt w =
     (let w1 = createMessage (messageOf s) (s_userId s) (guildOf s) (s_channelId s) ts w;
          w2 = scheduleExpiration (s_userId s) (guildOf s) (s_channelId s) expAt (s_botId s)
                 (later e w1);
          text = EnabledNotice (maxDuration (config e)) (recallDelay (config e));
          w3 = emit (SendMessage (s_botId s) (s_channelId s) text) w2
      in case sendMessage e (s_botId s) (s_channelId s) text of
           None \<Rightarrow> (Threw, w3)
         | Some notificationMsg \<Rightarrow>
             (case notificationMsg of
                [] \<Rightarrow> (Silent, w3)
              | mid # _ \<Rightarrow>
                  (Silent, createMessageCatch e StoreNoticeFailed mid (s_userId s) (guildOf s)
                             (s_channelId s) ts w3)))"

text \<open>The whole action, run without another handler in between.\<close>

definition enable :: "env \<Rightarrow> Session \<Rightarrow> world \<Rightarrow> outcome \<times> world" where
  "enable e s w =
     (case enableChecks e s w of
        (Some r, w1) \<Rightarrow> (Replied r, w1)
      | (None, w1) \<Rightarrow>
          (case enableCapacity e s w1 of
             Some r \<Rightarrow> (Replied r, w1)
           | None \<Rightarrow>
               let ts = now w1;
                   expAt = timeClip (of_int ts + maxDuration (config e) * 1000)
               in enableFinish e s ts expAt
                    (createUser (s_userId s) (guildOf s) (s_channelId s) ts expAt w1)))"

subsection \<open>Disabling\<close>

text \<open>The burn is started without being awaited; here it runs to its end before the next
  handler.\<close>

definition disable :: "env \<Rightarrow> Session \<Rightarrow> world \<Rightarrow> outcome \<times> world" where
  "disable e s w =
     (if guildOf s = [] then (Replied OnlyInGroup, w)
      else
        (case filter (\<lambda>u. u_userId u = s_userId s \<and> u_guildId u = guildOf s) (users w) of
           [] \<Rightarrow>
             (case filter (\<lambda>u. u_userId u = s_userId s) (users w) of
                [] \<Rightarrow> (Replied NotEnabledHere, w)
              | existingRecord # _ \<Rightarrow>
                  (let (info, w1) = guildInfo e (s_botId s) (u_guildId existingRecord) w
                   in (Replied (EnabledElsewhere info), w1)))
         | _ # _ \<Rightarrow>
             (let text = ClosedNotice (recallDelay (config e));
                  w1 = emit (SendMessage (s_botId s) (s_channelId s) text) w
              in (case sendMessage e (s_botId s) (s_channelId s) text of
                    None \<Rightarrow> (Threw, w1)
                  | Some closeNotificationMsg \<Rightarrow>
                      (Silent,
                       burnAfterReading e (s_userId s) (guildOf s) (s_channelId s) (s_botId s)
                         (case closeNotificationMsg of
                            [] \<Rightarrow> w1
                          | mid # _ \<Rightarrow>
                              createMessageCatch e StoreCloseNoticeFailed mid (s_userId s)
                                (guildOf s) (s_channelId s) (now w1) w1))))))"

section \<open>Message capture\<close>

definition storeMessageForRecall :: "env \<Rightarrow> Session \<Rightarrow> string \<Rightarrow> string \<Rightarrow> world \<Rightarrow> world" where
  "storeMessageForRecall e s mid userId w =
     createMessageCatch e StoreMessageFailed mid userId (guildOf s) (s_channelId s) (now w) w"

definition onMessage :: "env \<Rightarrow> Session \<Rightarrow> world \<Rightarrow> world" where
  "onMessage e s w =
     (if guildOf s = [] \<or> messageOf s = [] then w
      else
        let found = filter (\<lambda>u. u_userId u = s_userId s \<and> u_guildId u = guildOf s) (users w)
        in if length found = 0 then w
           else storeMessageForRecall e s (messageOf s) (s_userId s) w)"

section \<open>Recovery at start\<close>

text \<open>The body of the loop of the \<^verbatim>\<open>ready\<close> handler, for one of the rows loaded at its
  start. The bot is \<^verbatim>\<open>ctx.bots[Object.keys(ctx.bots)[0]]\<close>, undefined when no bot is
  registered. The guard reads the clock (\<^verbatim>\<open>new Date()\<close>), and \<^verbatim>\<open>scheduleExpiration\<close>
  reads it anew (\<^verbatim>\<open>Date.now()\<close>).\<close>

definition recoverOne :: "env \<Rightarrow> BurnAfterReadingUser \<Rightarrow> world \<Rightarrow> world" where
  "recoverOne e user w =
     (if expiresAt user > now w then
        (case bots e of
           [] \<Rightarrow> w
         | botId # _ \<Rightarrow>
             scheduleExpiration (u_userId user) (u_guildId user) (u_channelId user)
               (expiresAt user) botId (later e w))
      else
        (case bots e of
           [] \<Rightarrow> w
         | botId # _ \<Rightarrow>
             burnAfterReading e (u_userId user) (u_guildId user) (u_channelId user) botId w))"

fun recover :: "env \<Rightarrow> BurnAfterReadingUser list \<Rightarrow> world \<Rightarrow> world" where
  "recover e [] w = w"
| "recover e (user # rest) w = recover e rest (recoverOne e user w)"

definition onReady :: "env \<Rightarrow> world \<Rightarrow> world" where
  "onReady e w = logger Info PluginLoaded (recover e (users w) w)"

text \<open>The world in which the \<open>k\<close>-th of the loaded rows is examined: the one the loop has
  reached after the rows before it.\<close>

definition examined :: "env \<Rightarrow> nat \<Rightarrow> world \<Rightarrow> world" where
  "examined e k w = recover e (take k (users w)) w"

section \<open>Runs of the plugin\<close>

text \<open>
  Handlers run one after the other: a run is a list of operations, each carried out to
  its end on the world the previous one left. \<open>Expire k\<close> is the platform firing the
  \<open>k\<close>-th armed timer, which disarms it; the platform does so no earlier than at the
  instant \<open>firesAt\<close>. \<open>Tick d\<close> lets \<open>d\<close> milliseconds pass between two handlers.
\<close>

datatype op = Enable Session | Disable Session | Message Session | Expire nat | Ready | Tick nat

fun exec :: "env \<Rightarrow> world \<Rightarrow> op \<Rightarrow> world" where
  "exec e w (Enable s) = snd (enable e s w)"
| "exec e w (Disable s) = snd (disable e s w)"
| "exec e w (Message s) = onMessage e s w"
| "exec e w (Expire k) =
     (if k < length (timers w) \<and> firesAt (timers w ! k) \<le> now w
      then onExpire e (timers w ! k) (w\<lparr>timers := take k (timers w) @ drop (Suc k) (timers w)\<rparr>)
      else w)"
| "exec e w Ready = onReady e w"
| "exec e w (Tick d) = w\<lparr>now := now w + int d\<rparr>"

definition run :: "env \<Rightarrow> op list \<Rightarrow> world \<Rightarrow> world" where
  "run e ops w = foldl (exec e) w ops"

text \<open>
  Several enable actions in flight at once. An action gives way to other handlers where
  it awaits; \<open>task\<close> is the point an action has reached, with the local values it holds
  there, and \<open>enableStep\<close> carries one action from one awaited database call to the next.
\<close>

datatype task =
    Checking Session
  | Counting Session
  | Creating Session int int
  | Finishing Session int int
  | Ended outcome

fun enableStep :: "env \<Rightarrow> task \<Rightarrow> world \<Rightarrow> task \<times> world" where
  "enableStep e (Checking s) w =
     (case enableChecks e s w of
        (Some r, w1) \<Rightarrow> (Ended (Replied r), w1)
      | (None, w1) \<Rightarrow> (Counting s, w1))"
| "enableStep e (Counting s) w =
     (case enableCapacity e s w of
        Some r \<Rightarrow> (Ended (Replied r), w)
      | None \<Rightarrow>
          (let ts = now w;
               expAt = timeClip (of_int ts + maxDuration (config e) * 1000)
           in (Creating s ts expAt, w)))"
| "enableStep e (Creating s ts expAt) w =
     (Finishing s ts expAt, createUser (s_userId s) (guildOf s) (s_channelId s) ts expAt w)"
| "enableStep e (Finishing s ts expAt) w =
     (case enableFinish e s ts expAt w of (out, w1) \<Rightarrow> (Ended out, w1))"
| "enableStep e (Ended out) w = (Ended out, w)"

text \<open>\<open>stepAt\<close> lets the \<open>k\<close>-th action in flight take its next step; a schedule is the
  list of the actions that step, in order.\<close>

definition stepAt :: "env \<Rightarrow> task list \<times> world \<Rightarrow> nat \<Rightarrow> task list \<times> world" where
  "stepAt e st k =
     (case st of
        (ts, w) \<Rightarrow>
          if k < length ts
          then (case enableStep e (ts ! k) w of (t', w') \<Rightarrow> (ts[k := t'], w'))
          else (ts, w))"

definition interleave :: "env \<Rightarrow> nat list \<Rightarrow> task list \<times> world \<Rightarrow> task list \<times> world" where
  "interleave e sched st = foldl (stepAt e) st sched"

section \<open>Notions used in the statements\<close>

text \<open>\<open>paced s xs\<close> is \<open>xs\<close> with \<open>s\<close> between every two neighbours, and nowhere else.\<close>

fun paced :: "'a \<Rightarrow> 'a list \<Rightarrow> 'a list" where
  "paced s [] = []"
| "paced s [x] = [x]"
| "paced s (x # y # zs) = x # s # paced s (y # zs)"

text \<open>The deletion asked for a ledger row, and the log line the loop of a burn writes
  for it.\<close>

definition deletionOf :: "string \<Rightarrow> BurnAfterReadingMessage \<Rightarrow> event" where
  "deletionOf botId m = DeleteMessage botId (m_channelId m) (messageId m)"

definition recallLog :: "env \<Rightarrow> string \<Rightarrow> BurnAfterReadingMessage \<Rightarrow> level \<times> log_text" where
  "recallLog e botId m =
     (if deleteMessage e botId (m_channelId m) (messageId m)
      then (Info, Recalled (messageId m)) else (Warn, RecallFailed (messageId m)))"

fun isDeletion :: "event \<Rightarrow> bool" where
  "isDeletion (DeleteMessage _ _ _) = True"
| "isDeletion _ = False"

fun isSleep :: "event \<Rightarrow> bool" where
  "isSleep (Sleep _) = True"
| "isSleep _ = False"

fun isSend :: "event \<Rightarrow> bool" where
  "isSend (SendMessage _ _ _) = True"
| "isSend _ = False"

text \<open>The platform calls and the timers an operation added: what the later world holds
  beyond the earlier one.\<close>

definition newEvents :: "world \<Rightarrow> world \<Rightarrow> event list" where
  "newEvents w w' = drop (length (trace w)) (trace w')"

definition newTimers :: "world \<Rightarrow> world \<Rightarrow> timer list" where
  "newTimers w w' = drop (length (timers w)) (timers w')"

text \<open>The two session invariants of the data model.\<close>

definition uniqueUsers :: "world \<Rightarrow> bool" where
  "uniqueUsers w = distinct (map u_userId (users w))"

definition sessionsIn :: "string \<Rightarrow> world \<Rightarrow> BurnAfterReadingUser list" where
  "sessionsIn guildId w = filter (\<lambda>u. u_guildId u = guildId) (users w)"

definition withinCapacity :: "env \<Rightarrow> world \<Rightarrow> bool" where
  "withinCapacity e w =
     (\<forall>u \<in> set (users w). length (sessionsIn (u_guildId u) w) \<le> maxUsers (config e))"

text \<open>A user has a session row in a group.\<close>

definition stored :: "string \<Rightarrow> string \<Rightarrow> world \<Rightarrow> bool" where
  "stored userId guildId w = (\<exists>x \<in> set (users w). u_userId x = userId \<and> u_guildId x = guildId)"

text \<open>Ledger rows carry the ids the store gave them, in rising order; the store gives
  every new row the next id of its sequence.\<close>

definition ledgerOrdered :: "world \<Rightarrow> bool" where
  "ledgerOrdered w = sorted_wrt (<) (map m_id (messages w))"

definition ledgerOk :: "world \<Rightarrow> bool" where
  "ledgerOk w =
     (sorted_wrt (<) (map m_id (messages w)) \<and> (\<forall>m \<in> set (messages w). m_id m < message_seq w))"

text \<open>The timer that stands for a session row when armed at an instant: it closes over
  the row's user, group and channel, and its delay is the time left until the row's
  expiry.\<close>

definition timerFor :: "BurnAfterReadingUser \<Rightarrow> string \<Rightarrow> int \<Rightarrow> timer" where
  "timerFor user botId instant =
     \<lparr>t_userId = u_userId user, t_guildId = u_guildId user, t_channelId = u_channelId user,
       t_botId = botId, t_armedAt = instant, t_delay = expiresAt user - instant\<rparr>"

text \<open>A delay that \<^verbatim>\<open>setTimeout\<close> takes as it is: a whole number of milliseconds from 1
  to \<open>2^31 - 1\<close>.\<close>

definition wholeDelay :: "rat \<Rightarrow> bool" where
  "wholeDelay ms = (1 \<le> ms \<and> ms \<le> 2147483647 \<and> ms = of_int \<lfloor>ms\<rfloor>)"

text \<open>Whether a string occurs within another.\<close>

fun mentions :: "string \<Rightarrow> string \<Rightarrow> bool" where
  "mentions [] guildId = (guildId = [])"
| "mentions (c # cs) guildId = (take (length guildId) (c # cs) = guildId \<or> mentions cs guildId)"

text \<open>The three checks that come before the uniqueness check of the enable command.\<close>

definition passesChecks :: "env \<Rightarrow> Session \<Rightarrow> world \<Rightarrow> bool" where
  "passesChecks e s w =
     (guildOf s \<noteq> [] \<and> fst (checkBotPermission e s w) \<and> fst (checkUserRole e s w))"

text \<open>What a rejected command leaves untouched: the two tables with their sequences, the
  timers, the platform calls and the clock. Only the log may grow.\<close>

definition sameState :: "world \<Rightarrow> world \<Rightarrow> bool" where
  "sameState w w' =
     (users w' = users w \<and> messages w' = messages w \<and> timers w' = timers w
      \<and> trace w' = trace w \<and> now w' = now w
      \<and> user_seq w' = user_seq w \<and> message_seq w' = message_seq w)"

fun isReplied :: "outcome \<Rightarrow> bool" where
  "isReplied (Replied _) = True"
| "isReplied _ = False"

section \<open>Concrete worlds for the examples\<close>

definition emptyWorld :: "int \<Rightarrow> world" where
  "emptyWorld t = \<lparr>users = [], user_seq = 1, messages = [], message_seq = 1, timers = [],
                    trace = [], logs = [], now = t\<rparr>"

text \<open>The default configuration of the plugin.\<close>

definition demoConfig :: Config where
  "demoConfig = \<lparr>recallDelay = 5, maxDuration = 3600, maxUsers = 10, batchRecallInterval = 1\<rparr>"

fun demoSend :: "notice \<Rightarrow> string list option" where
  "demoSend (EnabledNotice _ _) = Some [''n1'']"
| "demoSend (ClosedNotice _) = Some [''n2'']"
| "demoSend (ExpiredNotice _ _) = Some [''n3'']"
| "demoSend ThanksNotice = Some [''n4'']"

text \<open>A platform on which the bot is an administrator, every user a plain member,
  every deletion succeeds but that of message \<open>m3\<close>, and every ledger write but that
  for message \<open>lost\<close>; the clock does not move between two readings by a handler.\<close>

definition demoEnv :: env where
  "demoEnv = \<lparr>config = demoConfig, bots = [''bot''],
               getGroupMemberInfo = (\<lambda>b g u. Some (if u = ''bot'' then role_admin else role_member)),
               getGuild = (\<lambda>b g. GuildMissing),
               sendMessage = (\<lambda>b c n. demoSend n),
               deleteMessage = (\<lambda>b c m. m \<noteq> ''m3''),
               createFails = (\<lambda>m. m = ''lost''),
               elapsed = (\<lambda>t. 0)\<rparr>"

text \<open>The same platform with no bot registered; with every send failing; with 5 ms passing
  between two readings of the clock; and with a configuration that admits one session
  per group, that has a recall delay of 2147484 seconds, that has an interval of 100.5 ms.\<close>

definition noBotEnv :: env where
  "noBotEnv = demoEnv\<lparr>bots := []\<rparr>"

definition muteEnv :: env where
  "muteEnv = demoEnv\<lparr>sendMessage := (\<lambda>b c n. None)\<rparr>"

definition slowClockEnv :: env where
  "slowClockEnv = demoEnv\<lparr>elapsed := (\<lambda>t. 5)\<rparr>"

definition singleEnv :: env where
  "singleEnv = demoEnv\<lparr>config := demoConfig\<lparr>maxUsers := 1\<rparr>\<rparr>"

definition longDelayEnv :: env where
  "longDelayEnv = demoEnv\<lparr>config := demoConfig\<lparr>recallDelay := 2147484\<rparr>\<rparr>"

definition fractionEnv :: env where
  "fractionEnv = demoEnv\<lparr>config := demoConfig\<lparr>batchRecallInterval := 201 / 2000\<rparr>\<rparr>"

text \<open>Five captured messages of user \<open>u\<close> in group \<open>g\<close>, from two channels.\<close>

definition fiveMessages :: world where
  "fiveMessages =
     createMessage ''m5'' ''u'' ''g'' ''c2'' 50
       (createMessage ''m4'' ''u'' ''g'' ''c1'' 40
         (createMessage ''m3'' ''u'' ''g'' ''c2'' 30
           (createMessage ''m2'' ''u'' ''g'' ''c1'' 20
             (createMessage ''m1'' ''u'' ''g'' ''c1'' 10 (emptyWorld 100)))))"

text \<open>A world with one session, of user \<open>u\<close> in group \<open>g\<close>, and an empty ledger; and one
  in which \<open>u\<close> has a session in group \<open>h\<close>.\<close>

definition oneSession :: world where
  "oneSession = createUser ''u'' ''g'' ''c'' 0 3600000 (emptyWorld 0)"

definition sessionElsewhere :: world where
  "sessionElsewhere = createUser ''u'' ''h'' ''d'' 0 3600000 (emptyWorld 0)"

text \<open>At instant 100000 two sessions are stored: that of \<open>early\<close> expires in 100 seconds,
  that of \<open>late\<close> expired 10 seconds ago. \<open>late\<close> has one captured message.\<close>

definition restartWorld :: world where
  "restartWorld =
     createMessage ''m1'' ''late'' ''g'' ''c'' 50
       (createUser ''late'' ''g'' ''c'' 0 90000
         (createUser ''early'' ''g'' ''c'' 0 200000 (emptyWorld 100000)))"

text \<open>At instant 100000 one session is stored that expires 3 ms later; and at instant 0
  one that expires after 30 days.\<close>

definition aboutToExpire :: world where
  "aboutToExpire = createUser ''soon'' ''g'' ''c'' 0 100003 (emptyWorld 100000)"

definition farWorld :: world where
  "farWorld = createUser ''far'' ''g'' ''c'' 0 2592000000 (emptyWorld 0)"

text \<open>The enable and disable commands of user \<open>u\<close> in group \<open>g\<close>, a plain message and a
  message whose ledger write fails, both of \<open>u\<close> in \<open>g\<close>, and a message of another user;
  and a message of \<open>u\<close> in \<open>g\<close> without a message id, or with an empty one.\<close>

definition cmdOn :: Session where
  "cmdOn = \<lparr>s_userId = ''u'', s_guildId = Some ''g'', s_channelId = ''c'',
             s_messageId = Some ''on'', s_botId = ''bot''\<rparr>"

definition cmdOff :: Session where
  "cmdOff = \<lparr>s_userId = ''u'', s_guildId = Some ''g'', s_channelId = ''c'',
              s_messageId = Some ''off'', s_botId = ''bot''\<rparr>"

definition hello :: Session where
  "hello = \<lparr>s_userId = ''u'', s_guildId = Some ''g'', s_channelId = ''c'',
             s_messageId = Some ''hi'', s_botId = ''bot''\<rparr>"

definition helloLost :: Session where
  "helloLost = \<lparr>s_userId = ''u'', s_guildId = Some ''g'', s_channelId = ''c'',
                 s_messageId = Some ''lost'', s_botId = ''bot''\<rparr>"

definition helloOther :: Session where
  "helloOther = \<lparr>s_userId = ''v'', s_guildId = Some ''g'', s_channelId = ''c'',
                  s_messageId = Some ''yo'', s_botId = ''bot''\<rparr>"

definition helloNoId :: Session where
  "helloNoId = \<lparr>s_userId = ''u'', s_guildId = Some ''g'', s_channelId = ''c'',
                 s_messageId = None, s_botId = ''bot''\<rparr>"

definition helloEmptyId :: Session where
  "helloEmptyId = \<lparr>s_userId = ''u'', s_guildId = Some ''g'', s_channelId = ''c'',
                    s_messageId = Some [], s_botId = ''bot''\<rparr>"

text \<open>The enable command of the same user \<open>u\<close> in another group \<open>h\<close>, and that of another
  user \<open>v\<close> in group \<open>g\<close>.\<close>

definition cmdOnElsewhere :: Session where
  "cmdOnElsewhere = \<lparr>s_userId = ''u'', s_guildId = Some ''h'', s_channelId = ''d'',
                      s_messageId = Some ''on2'', s_botId = ''bot''\<rparr>"

definition cmdOnOther :: Session where
  "cmdOnOther = \<lparr>s_userId = ''v'', s_guildId = Some ''g'', s_channelId = ''c'',
                  s_messageId = Some ''on3'', s_botId = ''bot''\<rparr>"

section \<open>Properties\<close>

subsection \<open>Frame lemmas\<close>

lemma logger_simps [simp]:
  "users (logger l t w) = users w" "messages (logger l t w) = messages w"
  "timers (logger l t w) = timers w" "trace (logger l t w) = trace w"
  "now (logger l t w) = now w" "user_seq (logger l t w) = user_seq w"
  "message_seq (logger l t w) = message_seq w" "logs (logger l t w) = logs w @ [(l, t)]"
  by (simp_all add: logger_def)

lemma emit_simps [simp]:
  "users (emit ev w) = users w" "messages (emit ev w) = messages w"
  "timers (emit ev w) = timers w" "trace (emit ev w) = trace w @ [ev]"
  "now (emit ev w) = now w" "user_seq (emit ev w) = user_seq w"
  "message_seq (emit ev w) = message_seq w" "logs (emit ev w) = logs w"
  by (simp_all add: emit_def)

lemma sleep_simps [simp]:
  "users (sleep d w) = users w" "messages (sleep d w) = messages w"
  "timers (sleep d w) = timers w" "trace (sleep d w) = trace w @ [Sleep d]"
  "now (sleep d w) = now w + timeoutDelay d" "user_seq (sleep d w) = user_seq w"
  "message_seq (sleep d w) = message_seq w" "logs (sleep d w) = logs w"
  by (simp_all add: sleep_def)

lemma later_simps [simp]:
  "users (later e w) = users w" "messages (later e w) = messages w"
  "timers (later e w) = timers w" "trace (later e w) = trace w"
  "now (later e w) = now w + int (elapsed e (now w))" "user_seq (later e w) = user_seq w"
  "message_seq (later e w) = message_seq w" "logs (later e w) = logs w"
  by (simp_all add: later_def)

lemma timeoutDelay_pos: "1 \<le> timeoutDelay ms"
  by (simp add: timeoutDelay_def le_floor_iff)

lemma timeoutDelay_whole: "wholeDelay ms \<Longrightarrow> of_int (timeoutDelay ms) = ms"
  by (simp add: timeoutDelay_def wholeDelay_def)

lemma recallEach_frame:
  "users (recallEach e b n i ms w) = users w \<and> timers (recallEach e b n i ms w) = timers w
   \<and> user_seq (recallEach e b n i ms w) = user_seq w
   \<and> message_seq (recallEach e b n i ms w) = message_seq w"
  by (induction ms arbitrary: i w) (simp_all add: Let_def)

lemma recallEach_trace:
  "i + length ms = n \<Longrightarrow>
   trace (recallEach e b n i ms w) =
     trace w @ paced (Sleep (batchRecallInterval (config e) * 1000)) (map (deletionOf b) ms)"
proof (induction ms arbitrary: i w)
  case Nil
  then show ?case by simp
next
  case (Cons m rest)
  show ?case
  proof (cases rest)
    case Nil
    with Cons.prems show ?thesis by (simp add: Let_def deletionOf_def)
  next
    case (Cons m' rest')
    with Cons.prems have lt: "int i < int n - 1" by simp
    from Cons.prems have "Suc i + length rest = n" by simp
    from Cons.IH [OF this] lt Cons show ?thesis
      by (simp add: Let_def deletionOf_def)
  qed
qed

lemma recallEach_messages:
  "messages (recallEach e b n i ms w) =
     filter (\<lambda>r. \<forall>m \<in> set ms. m_id m = m_id r \<longrightarrow> \<not> deleteMessage e b (m_channelId m) (messageId m))
       (messages w)"
proof (induction ms arbitrary: i w)
  case Nil
  then show ?case by simp
next
  case (Cons m rest)
  show ?case
    by (auto simp add: Let_def Cons.IH intro!: filter_cong)
qed

lemma recallEach_now:
  "i + length ms = n \<Longrightarrow>
   now (recallEach e b n i ms w) =
     now w + int (length ms - 1) * timeoutDelay (batchRecallInterval (config e) * 1000)"
proof (induction ms arbitrary: i w)
  case Nil
  then show ?case by simp
next
  case (Cons m rest)
  show ?case
  proof (cases rest)
    case Nil
    with Cons.prems show ?thesis by (simp add: Let_def)
  next
    case (Cons m' rest')
    with Cons.prems have lt: "int i < int n - 1" by simp
    from Cons.prems have "Suc i + length rest = n" by simp
    from Cons.IH [OF this] lt Cons show ?thesis
      by (simp add: Let_def algebra_simps)
  qed
qed

lemma recallEach_logs:
  "logs (recallEach e b n i ms w) = logs w @ map (recallLog e b) ms"
  by (induction ms arbitrary: i w) (simp_all add: Let_def recallLog_def)

lemma ledgerOf_users_update [simp]: "ledgerOf u g (w\<lparr>users := us\<rparr>) = ledgerOf u g w"
  by (simp add: ledgerOf_def)

lemma ledgerOf_logger [simp]: "ledgerOf u g (logger l t w) = ledgerOf u g w"
  by (simp add: ledgerOf_def)

lemma burn_trace:
  "trace (burnAfterReading e u g c b w) =
     (if ledgerOf u g w = [] then trace w
      else trace w @ Sleep (recallDelay (config e) * 1000)
             # paced (Sleep (batchRecallInterval (config e) * 1000))
                 (map (deletionOf b) (ledgerOf u g w))
             @ [SendMessage b c ThanksNotice])"
  by (simp add: burnAfterReading_def batchRecallMessages_def Let_def recallEach_trace)

lemma burn_messages:
  "messages (burnAfterReading e u g c b w) =
     filter (\<lambda>r. \<forall>m \<in> set (ledgerOf u g w). m_id m = m_id r \<longrightarrow>
                    \<not> deleteMessage e b (m_channelId m) (messageId m)) (messages w)"
  by (auto simp add: burnAfterReading_def batchRecallMessages_def Let_def recallEach_messages
      intro!: filter_True [symmetric])

lemma burn_users:
  "users (burnAfterReading e u g c b w) =
     filter (\<lambda>x. \<not> (u_userId x = u \<and> u_guildId x = g)) (users w)"
  by (simp add: burnAfterReading_def batchRecallMessages_def Let_def recallEach_frame)

lemma burn_frame:
  "timers (burnAfterReading e u g c b w) = timers w
   \<and> user_seq (burnAfterReading e u g c b w) = user_seq w
   \<and> message_seq (burnAfterReading e u g c b w) = message_seq w"
  by (simp add: burnAfterReading_def batchRecallMessages_def Let_def recallEach_frame)

lemma burn_now:
  "now (burnAfterReading e u g c b w) =
     (if ledgerOf u g w = [] then now w
      else now w + timeoutDelay (recallDelay (config e) * 1000)
             + int (length (ledgerOf u g w) - 1)
               * timeoutDelay (batchRecallInterval (config e) * 1000))"
  by (simp add: burnAfterReading_def batchRecallMessages_def Let_def recallEach_now)

lemma burn_logs:
  "logs (burnAfterReading e u g c b w) =
     (if ledgerOf u g w = [] then logs w @ [(Info, NothingToRecall u g)]
      else logs w @ (Info, RecallStarted u (length (ledgerOf u g w)))
             # map (recallLog e b) (ledgerOf u g w) @ [(Info, RecallFinished u)])"
  by (simp add: burnAfterReading_def batchRecallMessages_def Let_def recallEach_logs)

lemma filter_paced_other: "\<not> P s \<Longrightarrow> filter P (paced s xs) = filter P xs"
  by (induction s xs rule: paced.induct) simp_all

lemma filter_paced_sep:
  "P s \<Longrightarrow> \<forall>x \<in> set xs. \<not> P x \<Longrightarrow> length (filter P (paced s xs)) = length xs - 1"
  by (induction s xs rule: paced.induct) simp_all

lemma filter_isDeletion_paced [simp]:
  "filter isDeletion (paced (Sleep d) (map (deletionOf b) ms)) = map (deletionOf b) ms"
  by (simp add: filter_paced_other deletionOf_def filter_map comp_def)

lemma filter_isSleep_paced:
  "length (filter isSleep (paced (Sleep d) (map (deletionOf b) ms))) = length ms - 1"
  using filter_paced_sep [of isSleep "Sleep d" "map (deletionOf b) ms"]
  by (simp add: deletionOf_def)

lemma filter_isSend_paced [simp]:
  "filter isSend (paced (Sleep d) (map (deletionOf b) ms)) = []"
  by (simp add: filter_paced_other deletionOf_def filter_map comp_def)

lemma burn_newEvents:
  "newEvents w (burnAfterReading e u g c b w) =
     (if ledgerOf u g w = [] then []
      else Sleep (recallDelay (config e) * 1000)
             # paced (Sleep (batchRecallInterval (config e) * 1000))
                 (map (deletionOf b) (ledgerOf u g w))
             @ [SendMessage b c ThanksNotice])"
  by (simp add: newEvents_def burn_trace)

lemma burn_messages_distinct:
  assumes "distinct (map m_id (messages w))"
  shows "messages (burnAfterReading e u g c b w) =
     filter (\<lambda>r. \<not> (m_userId r = u \<and> m_guildId r = g
                      \<and> deleteMessage e b (m_channelId r) (messageId r))) (messages w)"
proof -
  have inj: "inj_on m_id (set (messages w))"
    using assms by (simp add: distinct_map)
  have sub: "set (ledgerOf u g w) \<subseteq> set (messages w)"
    by (auto simp: ledgerOf_def)
  show ?thesis
    unfolding burn_messages
  proof (rule filter_cong [OF refl])
    fix r assume r: "r \<in> set (messages w)"
    have "\<And>m. m \<in> set (ledgerOf u g w) \<Longrightarrow> m_id m = m_id r \<Longrightarrow> m = r"
      using inj sub r by (auto dest: inj_onD)
    then show "(\<forall>m\<in>set (ledgerOf u g w). m_id m = m_id r \<longrightarrow>
                  \<not> deleteMessage e b (m_channelId m) (messageId m)) =
               (\<not> (m_userId r = u \<and> m_guildId r = g \<and> deleteMessage e b (m_channelId r) (messageId r)))"
      using r by (auto simp: ledgerOf_def)
  qed
qed

text \<open>
  Claim C2. In a burn, a ledger row of the batch is removed exactly when the platform
  deleted its message; every message of the batch is attempted whatever happened to the
  ones before it, and each failure is logged with a warning. The ledger rows are told
  apart by their ids, which the store keeps distinct.
\<close>

theorem burn_failure_isolation:
  assumes "distinct (map m_id (messages w))"
  shows "messages (burnAfterReading e u g c b w) =
           filter (\<lambda>r. \<not> (m_userId r = u \<and> m_guildId r = g
                            \<and> deleteMessage e b (m_channelId r) (messageId r))) (messages w)
       \<and> filter isDeletion (newEvents w (burnAfterReading e u g c b w)) =
           map (deletionOf b) (ledgerOf u g w)
       \<and> filter (\<lambda>l. fst l = Warn) (drop (length (logs w)) (logs (burnAfterReading e u g c b w))) =
           map (\<lambda>m. (Warn, RecallFailed (messageId m)))
             (filter (\<lambda>m. \<not> deleteMessage e b (m_channelId m) (messageId m)) (ledgerOf u g w))"
proof (intro conjI)
  show "messages (burnAfterReading e u g c b w) =
           filter (\<lambda>r. \<not> (m_userId r = u \<and> m_guildId r = g
                            \<and> deleteMessage e b (m_channelId r) (messageId r))) (messages w)"
    by (rule burn_messages_distinct [OF assms])
  show "filter isDeletion (newEvents w (burnAfterReading e u g c b w)) =
           map (deletionOf b) (ledgerOf u g w)"
    by (simp add: burn_newEvents)
  have "filter (\<lambda>l. fst l = Warn) (map (recallLog e b) ms) =
          map (\<lambda>m. (Warn, RecallFailed (messageId m)))
             (filter (\<lambda>m. \<not> deleteMessage e b (m_channelId m) (messageId m)) ms)" for ms
    by (induction ms) (simp_all add: recallLog_def)
  then show "filter (\<lambda>l. fst l = Warn) (drop (length (logs w)) (logs (burnAfterReading e u g c b w))) =
           map (\<lambda>m. (Warn, RecallFailed (messageId m)))
             (filter (\<lambda>m. \<not> deleteMessage e b (m_channelId m) (messageId m)) (ledgerOf u g w))"
    by (simp add: burn_logs)
qed

lemma fiveMessages_messages:
  "map messageId (messages fiveMessages) = [''m1'', ''m2'', ''m3'', ''m4'', ''m5'']
   \<and> map m_id (messages fiveMessages) = [1, 2, 3, 4, 5]
   \<and> ledgerOf ''u'' ''g'' fiveMessages = messages fiveMessages"
  by (simp add: fiveMessages_def createMessage_def emptyWorld_def ledgerOf_def)

text \<open>Five messages, the third failing: the others are deleted and removed, the third stays.\<close>

theorem burn_failure_isolation_witness:
  "distinct (map m_id (messages fiveMessages))
   \<and> map messageId (messages (burnAfterReading demoEnv ''u'' ''g'' ''c1'' ''bot'' fiveMessages)) = [''m3'']
   \<and> map messageId (ledgerOf ''u'' ''g'' fiveMessages) = [''m1'', ''m2'', ''m3'', ''m4'', ''m5'']
   \<and> length (filter isDeletion (newEvents fiveMessages
        (burnAfterReading demoEnv ''u'' ''g'' ''c1'' ''bot'' fiveMessages))) = 5"
proof -
  have d: "distinct (map m_id (messages fiveMessages))"
    by (simp add: fiveMessages_messages)
  note t = burn_failure_isolation [OF d, of demoEnv "''u''" "''g''" "''c1''" "''bot''"]
  have m: "messages fiveMessages = ledgerOf ''u'' ''g'' fiveMessages"
    by (simp add: fiveMessages_messages)
  have "map messageId (messages (burnAfterReading demoEnv ''u'' ''g'' ''c1'' ''bot'' fiveMessages)) = [''m3'']"
    unfolding t [THEN conjunct1]
    by (simp add: fiveMessages_def createMessage_def emptyWorld_def demoEnv_def)
  moreover have "length (filter isDeletion (newEvents fiveMessages
        (burnAfterReading demoEnv ''u'' ''g'' ''c1'' ''bot'' fiveMessages))) = 5"
    unfolding t [THEN conjunct2, THEN conjunct1]
    by (simp add: fiveMessages_def createMessage_def emptyWorld_def ledgerOf_def)
  ultimately show ?thesis using d fiveMessages_messages by simp
qed

lemma ledgerOf_sorted:
  "sorted_wrt (<) (map m_id (messages w)) \<Longrightarrow> sorted_wrt (<) (map m_id (ledgerOf u g w))"
  by (simp add: ledgerOf_def sorted_wrt_map sorted_wrt_filter)


lemma fiveMessages_ledger:
  "map m_id (ledgerOf ''u'' ''g'' fiveMessages) = [1, 2, 3, 4, 5]
   \<and> map (deletionOf ''bot'') (ledgerOf ''u'' ''g'' fiveMessages) =
       [DeleteMessage ''bot'' ''c1'' ''m1'', DeleteMessage ''bot'' ''c1'' ''m2'',
        DeleteMessage ''bot'' ''c2'' ''m3'', DeleteMessage ''bot'' ''c1'' ''m4'',
        DeleteMessage ''bot'' ''c2'' ''m5'']"
  by (simp add: fiveMessages_def createMessage_def emptyWorld_def ledgerOf_def deletionOf_def)

lemma fiveMessages_length: "length (ledgerOf ''u'' ''g'' fiveMessages) = 5"
  by (simp add: fiveMessages_def createMessage_def emptyWorld_def ledgerOf_def)



lemma burn_empty:
  "ledgerOf u g w = [] \<Longrightarrow>
   burnAfterReading e u g c b w =
     logger Info (NothingToRecall u g)
       (w\<lparr>users := filter (\<lambda>x. \<not> (u_userId x = u \<and> u_guildId x = g)) (users w)\<rparr>)"
  by (simp add: burnAfterReading_def batchRecallMessages_def)

lemma burn_ledgerOf_empty:
  "ledgerOf u g w = [] \<Longrightarrow> ledgerOf u g (burnAfterReading e u g c b w) = []"
  by (simp add: burn_empty)

text \<open>
  Claim C5. When the ledger holds no row for (user, group), a burn removes the session
  rows of (user, group), which may be none, and writes one log line; it makes no platform
  call (no sleep, no deletion, no notice), and leaves ledger and clock as they are. A
  second burn after it changes nothing but the log.
\<close>

theorem burn_idempotent:
  assumes "ledgerOf u g w = []"
  shows "burnAfterReading e u g c b w =
           logger Info (NothingToRecall u g)
             (w\<lparr>users := filter (\<lambda>x. \<not> (u_userId x = u \<and> u_guildId x = g)) (users w)\<rparr>)
       \<and> newEvents w (burnAfterReading e u g c b w) = []
       \<and> messages (burnAfterReading e u g c b w) = messages w
       \<and> now (burnAfterReading e u g c b w) = now w
       \<and> burnAfterReading e u g c b (burnAfterReading e u g c b w) =
           logger Info (NothingToRecall u g) (burnAfterReading e u g c b w)"
proof (intro conjI)
  show first: "burnAfterReading e u g c b w =
           logger Info (NothingToRecall u g)
             (w\<lparr>users := filter (\<lambda>x. \<not> (u_userId x = u \<and> u_guildId x = g)) (users w)\<rparr>)"
    by (rule burn_empty [OF assms])
  show "newEvents w (burnAfterReading e u g c b w) = []"
    using assms by (simp add: burn_newEvents)
  show "messages (burnAfterReading e u g c b w) = messages w"
    by (simp add: first)
  show "now (burnAfterReading e u g c b w) = now w"
    using assms by (simp add: burn_now)
  have "filter (\<lambda>x. \<not> (u_userId x = u \<and> u_guildId x = g))
          (users (burnAfterReading e u g c b w)) = users (burnAfterReading e u g c b w)"
    by (simp add: burn_users)
  then have "(burnAfterReading e u g c b w)
               \<lparr>users := filter (\<lambda>x. \<not> (u_userId x = u \<and> u_guildId x = g))
                           (users (burnAfterReading e u g c b w))\<rparr>
             = burnAfterReading e u g c b w"
    by simp
  with burn_empty [OF burn_ledgerOf_empty [OF assms], of e c b e c b]
  show "burnAfterReading e u g c b (burnAfterReading e u g c b w) =
           logger Info (NothingToRecall u g) (burnAfterReading e u g c b w)"
    by simp
qed

text \<open>
  Claim C10. Every deletion of a burn is addressed to the channel stored in the ledger
  row of the message; the channel given to the burn is the destination of the completion
  notice and of nothing else, so that two burns that differ in it only attempt the same
  deletions and leave the same ledger.
\<close>

theorem burn_deletes_in_own_channel:
  "filter isDeletion (newEvents w (burnAfterReading e u g c b w)) =
     map (\<lambda>m. DeleteMessage b (m_channelId m) (messageId m)) (ledgerOf u g w)
   \<and> filter isSend (newEvents w (burnAfterReading e u g c b w)) =
       (if ledgerOf u g w = [] then [] else [SendMessage b c ThanksNotice])
   \<and> filter isDeletion (newEvents w (burnAfterReading e u g c' b w)) =
       filter isDeletion (newEvents w (burnAfterReading e u g c b w))
   \<and> messages (burnAfterReading e u g c' b w) = messages (burnAfterReading e u g c b w)"
  by (simp add: burn_newEvents burn_messages deletionOf_def)

text \<open>
  A session without captured messages: the first burn removes it, the second finds nothing.
\<close>

theorem burn_idempotent_witness:
  "ledgerOf ''u'' ''g'' oneSession = []
   \<and> users oneSession \<noteq> []
   \<and> users (burnAfterReading demoEnv ''u'' ''g'' ''c'' ''bot'' oneSession) = []
   \<and> newEvents oneSession (burnAfterReading demoEnv ''u'' ''g'' ''c'' ''bot'' oneSession) = []
   \<and> burnAfterReading demoEnv ''u'' ''g'' ''c'' ''bot''
        (burnAfterReading demoEnv ''u'' ''g'' ''c'' ''bot'' oneSession) =
      logger Info (NothingToRecall ''u'' ''g'')
        (burnAfterReading demoEnv ''u'' ''g'' ''c'' ''bot'' oneSession)"
proof -
  have h: "ledgerOf ''u'' ''g'' oneSession = []"
    by (simp add: oneSession_def createUser_def emptyWorld_def ledgerOf_def)
  note t = burn_idempotent [OF h, of demoEnv "''c''" "''bot''"]
  have u1: "users (burnAfterReading demoEnv ''u'' ''g'' ''c'' ''bot'' oneSession) = []"
    unfolding t [THEN conjunct1]
    by (simp add: oneSession_def createUser_def emptyWorld_def)
  have u0: "users oneSession \<noteq> []"
    by (simp add: oneSession_def createUser_def emptyWorld_def)
  from h u0 u1 t show ?thesis by blast
qed

text \<open>
  Messages captured in channels \<open>c1\<close> and \<open>c2\<close>, burnt with channel \<open>c9\<close>.
\<close>

theorem burn_deletes_in_own_channel_witness:
  "filter isDeletion (newEvents fiveMessages
      (burnAfterReading demoEnv ''u'' ''g'' ''c9'' ''bot'' fiveMessages)) =
     [DeleteMessage ''bot'' ''c1'' ''m1'', DeleteMessage ''bot'' ''c1'' ''m2'',
      DeleteMessage ''bot'' ''c2'' ''m3'', DeleteMessage ''bot'' ''c1'' ''m4'',
      DeleteMessage ''bot'' ''c2'' ''m5'']
   \<and> filter isSend (newEvents fiveMessages
        (burnAfterReading demoEnv ''u'' ''g'' ''c9'' ''bot'' fiveMessages)) =
       [SendMessage ''bot'' ''c9'' ThanksNotice]"
proof -
  note t = burn_deletes_in_own_channel [of fiveMessages demoEnv "''u''" "''g''" "''c9''" "''bot''"]
  have l: "ledgerOf ''u'' ''g'' fiveMessages \<noteq> []"
    using fiveMessages_ledger by auto
  have m: "map (\<lambda>m. DeleteMessage ''bot'' (m_channelId m) (messageId m))
             (ledgerOf ''u'' ''g'' fiveMessages) =
           [DeleteMessage ''bot'' ''c1'' ''m1'', DeleteMessage ''bot'' ''c1'' ''m2'',
            DeleteMessage ''bot'' ''c2'' ''m3'', DeleteMessage ''bot'' ''c1'' ''m4'',
            DeleteMessage ''bot'' ''c2'' ''m5'']"
    using fiveMessages_ledger unfolding deletionOf_def [abs_def] by blast
  from t [THEN conjunct1] have d: "filter isDeletion (newEvents fiveMessages
      (burnAfterReading demoEnv ''u'' ''g'' ''c9'' ''bot'' fiveMessages)) =
     [DeleteMessage ''bot'' ''c1'' ''m1'', DeleteMessage ''bot'' ''c1'' ''m2'',
      DeleteMessage ''bot'' ''c2'' ''m3'', DeleteMessage ''bot'' ''c1'' ''m4'',
      DeleteMessage ''bot'' ''c2'' ''m5'']"
    unfolding m .
  from t [THEN conjunct2, THEN conjunct1] l
  have "filter isSend (newEvents fiveMessages
        (burnAfterReading demoEnv ''u'' ''g'' ''c9'' ''bot'' fiveMessages)) =
       [SendMessage ''bot'' ''c9'' ThanksNotice]"
    by simp
  with d show ?thesis by blast
qed

subsection \<open>Scheduler and recovery\<close>

lemma schedule_users [simp]: "users (scheduleExpiration u g c x b w) = users w"
  and schedule_messages [simp]: "messages (scheduleExpiration u g c x b w) = messages w"
  and schedule_now [simp]: "now (scheduleExpiration u g c x b w) = now w"
  and schedule_trace [simp]: "trace (scheduleExpiration u g c x b w) = trace w"
  and schedule_logs [simp]: "logs (scheduleExpiration u g c x b w) = logs w"
  by (simp_all add: scheduleExpiration_def Let_def)

lemma schedule_timers:
  "timers (scheduleExpiration u g c x b w) =
     (if x - now w \<le> 0 then timers w
      else timers w @ [\<lparr>t_userId = u, t_guildId = g, t_channelId = c, t_botId = b,
                         t_armedAt = now w, t_delay = x - now w\<rparr>])"
  by (simp add: scheduleExpiration_def Let_def)

lemma burn_now_mono: "now w \<le> now (burnAfterReading e u g c b w)"
proof -
  have nn: "0 \<le> timeoutDelay x" for x
    using timeoutDelay_pos [of x] by linarith
  have "0 \<le> timeoutDelay x + int k * timeoutDelay y" for x y k
    by (intro add_nonneg_nonneg mult_nonneg_nonneg nn) simp
  then show ?thesis by (simp add: burn_now add.assoc)
qed

lemma recoverOne_now: "now w \<le> now (recoverOne e x w)"
  by (simp add: recoverOne_def burn_now_mono split: list.splits)

lemma recoverOne_users: "set (users (recoverOne e x w)) \<subseteq> set (users w)"
  by (auto simp: recoverOne_def burn_users split: list.splits)

lemma recoverOne_timers: "\<exists>new. timers (recoverOne e x w) = timers w @ new"
  by (simp add: recoverOne_def burn_frame schedule_timers split: list.splits)

lemma recover_now: "now w \<le> now (recover e xs w)"
proof (induction xs arbitrary: w)
  case Nil
  show ?case by simp
next
  case (Cons x xs)
  have "now w \<le> now (recoverOne e x w)" by (rule recoverOne_now)
  also have "\<dots> \<le> now (recover e xs (recoverOne e x w))" by (rule Cons.IH)
  finally show ?case by simp
qed

lemma recover_users: "set (users (recover e xs w)) \<subseteq> set (users w)"
proof (induction xs arbitrary: w)
  case Nil
  show ?case by simp
next
  case (Cons x xs)
  from Cons.IH [of "recoverOne e x w"] recoverOne_users [of e x w]
  show ?case by auto
qed

lemma recover_timers: "\<exists>new. timers (recover e xs w) = timers w @ new"
proof (induction xs arbitrary: w)
  case Nil
  show ?case by simp
next
  case (Cons x xs)
  obtain n1 where n1: "timers (recoverOne e x w) = timers w @ n1"
    using recoverOne_timers by blast
  obtain n2 where n2: "timers (recover e xs (recoverOne e x w)) = timers (recoverOne e x w) @ n2"
    using Cons.IH by blast
  from n1 n2 show ?case by simp
qed

lemma recover_append: "recover e (xs @ ys) w = recover e ys (recover e xs w)"
  by (induction xs arbitrary: w) simp_all

lemma recover_at:
  assumes "k < length (users w)"
  shows "recover e (users w) w =
           recover e (drop (Suc k) (users w)) (recoverOne e (users w ! k) (examined e k w))"
proof -
  from assms have "users w = take k (users w) @ users w ! k # drop (Suc k) (users w)"
    by (rule id_take_nth_drop)
  then have "recover e (users w) w =
               recover e (take k (users w) @ users w ! k # drop (Suc k) (users w)) w"
    by simp
  then show ?thesis
    unfolding recover_append examined_def by simp
qed

lemma not_stored_mono:
  "set (users w') \<subseteq> set (users w) \<Longrightarrow> \<not> stored u g w \<Longrightarrow> \<not> stored u g w'"
  by (auto simp: stored_def)

lemma burn_not_stored: "\<not> stored u g (burnAfterReading e u g c b w)"
  by (simp add: stored_def burn_users)

lemma createMessageCatch_users [simp]:
  "users (createMessageCatch e l m u g c ts w) = users w"
  by (simp add: createMessageCatch_def createMessage_def)

lemma burn_deletions:
  "filter isDeletion (newEvents w (burnAfterReading e u g c b w)) =
     map (deletionOf b) (ledgerOf u g w)"
  by (simp add: burn_newEvents)

lemma burn_events_after:
  assumes "trace w1 = trace w @ xs"
  shows "newEvents w (burnAfterReading e u g c b w1) =
           xs @ newEvents w1 (burnAfterReading e u g c b w1)"
  using assms by (simp add: newEvents_def burn_trace)

text \<open>When the expiry notice is sent, the callback of a timer removes what the burn
  alone removes, and attempts the deletions of the burn alone and then that of the
  notice it captured.\<close>

lemma onExpire_sent:
  assumes "sendMessage e (t_botId t) (t_channelId t)
             (ExpiredNotice (t_userId t) (recallDelay (config e))) = Some ids"
  shows "users (onExpire e t w) =
           users (burnAfterReading e (t_userId t) (t_guildId t) (t_channelId t) (t_botId t) w)
       \<and> filter isDeletion (newEvents w (onExpire e t w)) =
           filter isDeletion
             (newEvents w (burnAfterReading e (t_userId t) (t_guildId t) (t_channelId t) (t_botId t) w))
           @ (case ids of
                [] \<Rightarrow> []
              | mid # _ \<Rightarrow>
                  if createFails e mid then []
                  else [DeleteMessage (t_botId t) (t_channelId t) mid])"
proof -
  let ?u = "t_userId t" and ?g = "t_guildId t" and ?c = "t_channelId t" and ?b = "t_botId t"
  let ?text = "ExpiredNotice ?u (recallDelay (config e))"
  let ?w2 = "emit (SendMessage ?b ?c ?text) (logger Info (SessionExpired ?u ?g) w)"
  let ?w3 = "case ids of [] \<Rightarrow> ?w2
             | mid # _ \<Rightarrow> createMessageCatch e StoreExpireNoticeFailed mid ?u ?g ?c (now ?w2) ?w2"
  have oe: "onExpire e t w = burnAfterReading e ?u ?g ?c ?b ?w3"
    using assms by (simp add: onExpire_def Let_def)
  have us: "users ?w3 = users w"
    by (cases ids) simp_all
  have tr: "trace ?w3 = trace w @ [SendMessage ?b ?c ?text]"
    by (cases ids) (simp_all add: createMessageCatch_def createMessage_def)
  let ?extra = "case ids of
                  [] \<Rightarrow> []
                | mid # _ \<Rightarrow>
                    if createFails e mid then []
                    else [\<lparr>m_id = message_seq w, messageId = mid, m_userId = ?u,
                            m_guildId = ?g, m_channelId = ?c, sentAt = now w\<rparr>]"
  have lg: "ledgerOf ?u ?g ?w3 = ledgerOf ?u ?g w @ ?extra"
    by (cases ids) (simp_all add: ledgerOf_def createMessageCatch_def createMessage_def)
  have ex: "map (deletionOf ?b) ?extra =
              (case ids of
                 [] \<Rightarrow> []
               | mid # _ \<Rightarrow> if createFails e mid then [] else [DeleteMessage ?b ?c mid])"
    by (cases ids) (simp_all add: deletionOf_def)
  have 1: "users (onExpire e t w) = users (burnAfterReading e ?u ?g ?c ?b w)"
    by (simp add: oe burn_users us)
  have "filter isDeletion (newEvents w (burnAfterReading e ?u ?g ?c ?b ?w3)) =
          map (deletionOf ?b) (ledgerOf ?u ?g ?w3)"
    by (simp add: burn_events_after [OF tr] burn_deletions)
  also have "\<dots> = map (deletionOf ?b) (ledgerOf ?u ?g w) @ map (deletionOf ?b) ?extra"
    by (simp only: lg map_append)
  finally have 2: "filter isDeletion (newEvents w (onExpire e t w)) =
           filter isDeletion (newEvents w (burnAfterReading e ?u ?g ?c ?b w))
           @ (case ids of
                [] \<Rightarrow> []
              | mid # _ \<Rightarrow>
                  if createFails e mid then [] else [DeleteMessage ?b ?c mid])"
    by (simp only: oe ex burn_deletions)
  from 1 2 show ?thesis by blast
qed


text \<open>
  The restart of the demo platform at instant 100000, with the session of \<open>early\<close> that
  expires at 200000 and that of \<open>late\<close> that expired at 90000.
\<close>

lemmas recovery_defs =
  recoverOne_def onReady_def examined_def onExpire_def scheduleExpiration_def
  burnAfterReading_def batchRecallMessages_def ledgerOf_def createUser_def createMessage_def
  createMessageCatch_def emit_def logger_def sleep_def later_def timeoutDelay_def firesAt_def
  timerFor_def run_def demoEnv_def demoConfig_def emptyWorld_def Let_def

lemma restartWorld_eq:
  "restartWorld =
     \<lparr>users = [\<lparr>u_id = 1, u_userId = ''early'', u_guildId = ''g'', u_channelId = ''c'',
                  enabledAt = 0, expiresAt = 200000\<rparr>,
                \<lparr>u_id = 2, u_userId = ''late'', u_guildId = ''g'', u_channelId = ''c'',
                  enabledAt = 0, expiresAt = 90000\<rparr>],
       user_seq = 3,
       messages = [\<lparr>m_id = 1, messageId = ''m1'', m_userId = ''late'', m_guildId = ''g'',
                     m_channelId = ''c'', sentAt = 50\<rparr>],
       message_seq = 2, timers = [], trace = [], logs = [], now = 100000\<rparr>"
  by (simp add: restartWorld_def createUser_def createMessage_def emptyWorld_def)

lemma restart_examined:
  "examined demoEnv 0 restartWorld = restartWorld"
  "examined demoEnv 1 restartWorld =
     restartWorld\<lparr>timers := [\<lparr>t_userId = ''early'', t_guildId = ''g'', t_channelId = ''c'',
                                t_botId = ''bot'', t_armedAt = 100000, t_delay = 100000\<rparr>]\<rparr>"
  by (simp_all add: restartWorld_eq recovery_defs)

lemma restart_result:
  "onReady demoEnv restartWorld =
     \<lparr>users = [\<lparr>u_id = 1, u_userId = ''early'', u_guildId = ''g'', u_channelId = ''c'',
                  enabledAt = 0, expiresAt = 200000\<rparr>],
       user_seq = 3, messages = [], message_seq = 2,
       timers = [\<lparr>t_userId = ''early'', t_guildId = ''g'', t_channelId = ''c'',
                   t_botId = ''bot'', t_armedAt = 100000, t_delay = 100000\<rparr>],
       trace = [Sleep 5000, DeleteMessage ''bot'' ''c'' ''m1'',
                SendMessage ''bot'' ''c'' ThanksNotice],
       logs = [(Info, RecallStarted ''late'' 1), (Info, Recalled ''m1''),
               (Info, RecallFinished ''late''), (Info, PluginLoaded)],
       now = 105000\<rparr>"
  by (simp add: restartWorld_eq recovery_defs)


text \<open>
  Claim C4 as stated fails in four ways. With no bot registered the handler skips every
  row: the session of \<open>late\<close>, expired for ten seconds, stays stored, with no timer and
  no platform call. The outcome of the immediate burn is not that of the timer: the timer
  sends the expiry notice, captures it and deletes it, the immediate burn does not; and
  when that notice cannot be sent the timer leaves the session stored, while the
  immediate burn removes it. A session that expires between the reading of the clock in
  the guard and the one in \<^verbatim>\<open>scheduleExpiration\<close> is neither armed nor burnt. And a
  session that expires in 30 days gets a timer that the platform runs after one
  millisecond.
\<close>

lemma aboutToExpire_eq:
  "aboutToExpire =
     \<lparr>users = [\<lparr>u_id = 1, u_userId = ''soon'', u_guildId = ''g'', u_channelId = ''c'',
                  enabledAt = 0, expiresAt = 100003\<rparr>],
       user_seq = 2, messages = [], message_seq = 1, timers = [], trace = [], logs = [],
       now = 100000\<rparr>"
  by (simp add: aboutToExpire_def createUser_def emptyWorld_def)

lemma farWorld_eq:
  "farWorld =
     \<lparr>users = [\<lparr>u_id = 1, u_userId = ''far'', u_guildId = ''g'', u_channelId = ''c'',
                  enabledAt = 0, expiresAt = 2592000000\<rparr>],
       user_seq = 2, messages = [], message_seq = 1, timers = [], trace = [], logs = [],
       now = 0\<rparr>"
  by (simp add: farWorld_def createUser_def emptyWorld_def)


text \<open>
  Claim C9. A call of \<^verbatim>\<open>scheduleExpiration\<close> with an expiry that is not strictly after
  the present instant returns the world as it got it: no timer, no platform call, no burn.
  A session found expired is burnt by the \<^verbatim>\<open>ready\<close> handler itself, which does not go
  through \<^verbatim>\<open>scheduleExpiration\<close> for it.
\<close>

theorem scheduleExpiration_expired_noop:
  assumes "expAt \<le> now w"
  shows "scheduleExpiration u g c expAt b w = w
       \<and> newTimers w (scheduleExpiration u g c expAt b w) = []
       \<and> newEvents w (scheduleExpiration u g c expAt b w) = []
       \<and> (\<forall>user. expiresAt user = expAt \<longrightarrow> bots e = b # bs \<longrightarrow>
            recoverOne e user w =
              burnAfterReading e (u_userId user) (u_guildId user) (u_channelId user) b w)"
  using assms
  by (simp add: scheduleExpiration_def newTimers_def newEvents_def recoverOne_def)

text \<open>
  An expiry equal to the present instant arms nothing; one millisecond later does.
\<close>

theorem scheduleExpiration_expired_noop_witness:
  "(100::int) \<le> now (emptyWorld 100)
   \<and> scheduleExpiration ''u'' ''g'' ''c'' 100 ''bot'' (emptyWorld 100) = emptyWorld 100
   \<and> timers (scheduleExpiration ''u'' ''g'' ''c'' 100 ''bot'' (emptyWorld 100)) = []
   \<and> timers (scheduleExpiration ''u'' ''g'' ''c'' 101 ''bot'' (emptyWorld 100)) \<noteq> []"
proof -
  have h: "(100::int) \<le> now (emptyWorld 100)" by (simp add: emptyWorld_def)
  from scheduleExpiration_expired_noop [OF h, of "''u''" "''g''" "''c''" "''bot''"]
  have "scheduleExpiration ''u'' ''g'' ''c'' 100 ''bot'' (emptyWorld 100) = emptyWorld 100"
    by blast
  moreover have "timers (emptyWorld 100) = []" by (simp add: emptyWorld_def)
  moreover have "timers (scheduleExpiration ''u'' ''g'' ''c'' 101 ''bot'' (emptyWorld 100)) \<noteq> []"
    by (simp add: scheduleExpiration_def emptyWorld_def)
  ultimately show ?thesis using h by simp
qed

subsection \<open>Message capture\<close>

lemma createMessage_simps [simp]:
  "users (createMessage m u g c ts w) = users w"
  "timers (createMessage m u g c ts w) = timers w"
  "trace (createMessage m u g c ts w) = trace w"
  "now (createMessage m u g c ts w) = now w"
  "logs (createMessage m u g c ts w) = logs w"
  "user_seq (createMessage m u g c ts w) = user_seq w"
  "message_seq (createMessage m u g c ts w) = Suc (message_seq w)"
  "messages (createMessage m u g c ts w) = messages w @
     [\<lparr>m_id = message_seq w, messageId = m, m_userId = u, m_guildId = g,
       m_channelId = c, sentAt = ts\<rparr>]"
  by (simp_all add: createMessage_def)

lemma createMessageCatch_frame [simp]:
  "timers (createMessageCatch e l m u g c ts w) = timers w"
  "trace (createMessageCatch e l m u g c ts w) = trace w"
  "now (createMessageCatch e l m u g c ts w) = now w"
  "user_seq (createMessageCatch e l m u g c ts w) = user_seq w"
  by (simp_all add: createMessageCatch_def)

lemma stored_filter: "stored u g w \<longleftrightarrow> filter (\<lambda>x. u_userId x = u \<and> u_guildId x = g) (users w) \<noteq> []"
  by (auto simp: stored_def filter_empty_conv)

lemma oneSession_eq:
  "oneSession = \<lparr>users = [\<lparr>u_id = 1, u_userId = ''u'', u_guildId = ''g'', u_channelId = ''c'',
                   enabledAt = 0, expiresAt = 3600000\<rparr>],
                  user_seq = 2, messages = [], message_seq = 1, timers = [], trace = [],
                  logs = [], now = 0\<rparr>"
  by (simp add: oneSession_def createUser_def emptyWorld_def)

text \<open>
  Claim C7, as the code has it. The listener returns at once on a message event that
  carries no message id, or an empty one, and on one outside any group. On every other
  event it asks for the write of a ledger row exactly when the sender has a session row in
  the group of the message. The row is appended when the store accepts the write; when it
  rejects it, a warning is logged and the ledger stays as it was. In no case does the
  listener call the platform (nothing is sent to the sender) or touch sessions, timers or
  clock.
\<close>

theorem capture_iff_active_session:
  "messages (onMessage e s w) =
     (if messageOf s \<noteq> [] \<and> guildOf s \<noteq> [] \<and> stored (s_userId s) (guildOf s) w
         \<and> \<not> createFails e (messageOf s)
      then messages w @
             [\<lparr>m_id = message_seq w, messageId = messageOf s, m_userId = s_userId s,
               m_guildId = guildOf s, m_channelId = s_channelId s, sentAt = now w\<rparr>]
      else messages w)
   \<and> logs (onMessage e s w) =
       (if messageOf s \<noteq> [] \<and> guildOf s \<noteq> [] \<and> stored (s_userId s) (guildOf s) w
           \<and> createFails e (messageOf s)
        then logs w @ [(Warn, StoreMessageFailed)] else logs w)
   \<and> trace (onMessage e s w) = trace w
   \<and> users (onMessage e s w) = users w
   \<and> timers (onMessage e s w) = timers w
   \<and> now (onMessage e s w) = now w"
  by (simp add: onMessage_def storeMessageForRecall_def createMessageCatch_def Let_def stored_filter)

text \<open>
  With a session of \<open>u\<close> in \<open>g\<close>: a message of \<open>u\<close> is captured, one of \<open>v\<close> is not, and
  one whose write fails leaves a warning only.
\<close>

theorem capture_iff_active_session_witness:
  "guildOf hello \<noteq> [] \<and> messageOf hello \<noteq> []
   \<and> stored ''u'' ''g'' oneSession \<and> \<not> stored ''v'' ''g'' oneSession
   \<and> map messageId (messages (onMessage demoEnv hello oneSession)) = [''hi'']
   \<and> messages (onMessage demoEnv helloOther oneSession) = []
   \<and> messages (onMessage demoEnv helloLost oneSession) = []
   \<and> logs (onMessage demoEnv helloLost oneSession) = [(Warn, StoreMessageFailed)]
   \<and> trace (onMessage demoEnv helloLost oneSession) = []"
proof -
  have g: "guildOf hello \<noteq> []" "guildOf helloOther \<noteq> []" "guildOf helloLost \<noteq> []"
    and m: "messageOf hello \<noteq> []" "messageOf helloOther \<noteq> []" "messageOf helloLost \<noteq> []"
    by (simp_all add: guildOf_def messageOf_def hello_def helloOther_def helloLost_def)
  have st: "stored ''u'' ''g'' oneSession" "\<not> stored ''v'' ''g'' oneSession"
    by (simp_all add: stored_def oneSession_eq)
  have f: "\<not> createFails demoEnv ''hi''" "createFails demoEnv ''lost''"
    by (simp_all add: demoEnv_def)
  have i: "s_userId hello = ''u''" "guildOf hello = ''g''" "messageOf hello = ''hi''"
     "s_userId helloOther = ''v''" "guildOf helloOther = ''g''" "messageOf helloOther = ''yo''"
     "s_userId helloLost = ''u''" "guildOf helloLost = ''g''" "messageOf helloLost = ''lost''"
    by (simp_all add: guildOf_def messageOf_def hello_def helloOther_def helloLost_def)
  from capture_iff_active_session [of demoEnv hello oneSession]
  have 1: "map messageId (messages (onMessage demoEnv hello oneSession)) = [''hi'']"
    using st f by (simp add: i oneSession_eq)
  from capture_iff_active_session [of demoEnv helloOther oneSession]
  have 2: "messages (onMessage demoEnv helloOther oneSession) = []"
    using st by (simp add: i oneSession_eq)
  from capture_iff_active_session [of demoEnv helloLost oneSession]
  have 3: "messages (onMessage demoEnv helloLost oneSession) = []
     \<and> logs (onMessage demoEnv helloLost oneSession) = [(Warn, StoreMessageFailed)]
     \<and> trace (onMessage demoEnv helloLost oneSession) = []"
    using st f by (simp add: i oneSession_eq)
  from g m st 1 2 3 show ?thesis by blast
qed

text \<open>
  Claim C7 as stated fails on a message event without a message id: the sender \<open>u\<close> holds
  a session in the group \<open>g\<close> of the message, and no ledger row is written, nor is
  anything logged. The same holds for an event whose message id is the empty string.
\<close>

theorem capture_iff_active_session_counterexample:
  "s_userId helloNoId = ''u'' \<and> guildOf helloNoId = ''g'' \<and> s_messageId helloNoId = None
   \<and> s_userId helloEmptyId = ''u'' \<and> guildOf helloEmptyId = ''g''
   \<and> s_messageId helloEmptyId = Some []
   \<and> stored ''u'' ''g'' oneSession
   \<and> messages oneSession = []
   \<and> messages (onMessage demoEnv helloNoId oneSession) = []
   \<and> logs (onMessage demoEnv helloNoId oneSession) = []
   \<and> messages (onMessage demoEnv helloEmptyId oneSession) = []
   \<and> logs (onMessage demoEnv helloEmptyId oneSession) = []"
  by (simp add: onMessage_def guildOf_def messageOf_def helloNoId_def helloEmptyId_def
      stored_def oneSession_eq)

subsection \<open>The enable command\<close>

lemma sameState_refl [simp]: "sameState w w"
  by (simp add: sameState_def)

lemma sameState_logger [simp]: "sameState w (logger l t w)"
  by (simp add: sameState_def)

lemma checkBotPermission_frame: "sameState w (snd (checkBotPermission e s w))"
  by (simp add: checkBotPermission_def split: option.splits)

lemma checkBotPermission_True: "fst (checkBotPermission e s w) \<Longrightarrow> snd (checkBotPermission e s w) = w"
  by (simp add: checkBotPermission_def split: option.splits if_splits)

lemma checkUserRole_frame: "sameState w (snd (checkUserRole e s w))"
  by (simp add: checkUserRole_def split: option.splits)

lemma checkUserRole_True: "fst (checkUserRole e s w) \<Longrightarrow> snd (checkUserRole e s w) = w"
  by (simp add: checkUserRole_def split: option.splits if_splits)

lemma guildInfo_frame: "sameState w (snd (guildInfo e b g w))"
  by (simp add: guildInfo_def split: guild_result.splits)

lemma mentions_iff: "mentions info g \<longleftrightarrow> (\<exists>p q. info = p @ g @ q)"
proof (induction info)
  case Nil
  show ?case by auto
next
  case (Cons c cs)
  show ?case
  proof
    assume "mentions (c # cs) g"
    then consider "take (length g) (c # cs) = g" | "mentions cs g" by auto
    then show "\<exists>p q. c # cs = p @ g @ q"
    proof cases
      case 1
      then have "c # cs = [] @ g @ drop (length g) (c # cs)"
        by (metis append_Nil append_take_drop_id)
      then show ?thesis by blast
    next
      case 2
      with Cons.IH obtain p q where "cs = p @ g @ q" by blast
      then have "c # cs = (c # p) @ g @ q" by simp
      then show ?thesis by blast
    qed
  next
    assume "\<exists>p q. c # cs = p @ g @ q"
    then obtain p q where pq: "c # cs = p @ g @ q" by blast
    show "mentions (c # cs) g"
    proof (cases p)
      case Nil
      with pq have "take (length g) (c # cs) = g" by simp
      then show ?thesis by simp
    next
      case (Cons a p')
      with pq have "cs = p' @ g @ q" by simp
      with Cons.IH have "mentions cs g" by blast
      then show ?thesis by simp
    qed
  qed
qed

lemma mentions_self: "mentions g g"
  by (simp add: mentions_iff) (metis append_Nil append_Nil2)

lemma guildInfo_mentions: "mentions (fst (guildInfo e b g w)) g"
proof (cases "getGuild e b g")
  case GuildThrows
  then show ?thesis by (simp add: guildInfo_def mentions_self)
next
  case GuildMissing
  then show ?thesis by (simp add: guildInfo_def mentions_self)
next
  case (Guild name)
  show ?thesis
  proof (cases "name = []")
    case True
    with Guild show ?thesis by (simp add: guildInfo_def mentions_self)
  next
    case False
    have "mentions ((name @ lparen) @ g @ rparen) g"
      unfolding mentions_iff by blast
    with Guild False show ?thesis by (simp add: guildInfo_def)
  qed
qed

lemma checkBotPermission_independent:
  "fst (checkBotPermission e s w) = fst (checkBotPermission e s w')"
  by (simp add: checkBotPermission_def split: option.splits)

lemma checkUserRole_independent:
  "fst (checkUserRole e s w) = fst (checkUserRole e s w')"
  by (simp add: checkUserRole_def split: option.splits)

lemma sameState_users: "sameState w w' \<Longrightarrow> users w' = users w"
  by (simp add: sameState_def)

lemma sameState_trans: "sameState w w1 \<Longrightarrow> sameState w1 w2 \<Longrightarrow> sameState w w2"
  by (simp add: sameState_def)

lemma enableChecks_frame: "sameState w (snd (enableChecks e s w))"
proof -
  obtain p w1 where c1: "checkBotPermission e s w = (p, w1)" by (cases "checkBotPermission e s w")
  obtain r w2 where c2: "checkUserRole e s w1 = (r, w2)" by (cases "checkUserRole e s w1")
  have s1: "sameState w w1" using checkBotPermission_frame [of w e s] c1 by simp
  have s2: "sameState w1 w2" using checkUserRole_frame [of w1 e s] c2 by simp
  have s12: "sameState w w2" by (rule sameState_trans [OF s1 s2])
  have s3: "sameState w (snd (guildInfo e b g w2))" for b g
    by (rule sameState_trans [OF s12 guildInfo_frame])
  show ?thesis
    using s1 s12 s3
    by (simp add: enableChecks_def c1 c2 case_prod_beta split: list.splits)
qed

lemma enableChecks_None:
  assumes "fst (enableChecks e s w) = None"
  shows "passesChecks e s w \<and> (\<forall>x \<in> set (users w). u_userId x \<noteq> s_userId s)
         \<and> snd (enableChecks e s w) = w"
proof -
  obtain p w1 where c1: "checkBotPermission e s w = (p, w1)" by (cases "checkBotPermission e s w")
  obtain r w2 where c2: "checkUserRole e s w1 = (r, w2)" by (cases "checkUserRole e s w1")
  from assms have g: "guildOf s \<noteq> []"
    by (auto simp: enableChecks_def split: if_splits)
  from assms g have p: "p"
    by (auto simp: enableChecks_def c1 split: if_splits)
  with c1 checkBotPermission_True [of e s w] have w1: "w1 = w" by simp
  from assms g p have r: "r"
    by (auto simp: enableChecks_def c1 c2 split: if_splits)
  with c2 w1 checkUserRole_True [of e s w] have w2: "w2 = w" by simp
  from assms g p r have f: "filter (\<lambda>u. u_userId u = s_userId s) (users w) = []"
    by (auto simp: enableChecks_def c1 c2 w2 case_prod_beta split: if_splits list.splits)
  then have none: "\<forall>x \<in> set (users w). u_userId x \<noteq> s_userId s"
    by (simp add: filter_empty_conv)
  from g p r c1 c2 w1 have pc: "passesChecks e s w"
    by (simp add: passesChecks_def)
  from c2 w1 w2 have c2': "checkUserRole e s w = (r, w)" by simp
  from c1 w1 have c1': "checkBotPermission e s w = (p, w)" by simp
  from g p r f have "snd (enableChecks e s w) = w"
    by (simp add: enableChecks_def c1' c2')
  with pc none show ?thesis by simp
qed

lemma enableChecks_passed:
  assumes "passesChecks e s w"
  shows "enableChecks e s w =
     (case filter (\<lambda>u. u_userId u = s_userId s) (users w) of
        [] \<Rightarrow> (None, w)
      | existingRecord # _ \<Rightarrow>
          if u_guildId existingRecord = guildOf s then (Some AlreadyEnabledHere, w)
          else (Some (AlreadyEnabledElsewhere (fst (guildInfo e (s_botId s) (u_guildId existingRecord) w))),
                snd (guildInfo e (s_botId s) (u_guildId existingRecord) w)))"
proof -
  from assms have g: "guildOf s \<noteq> []" and p: "fst (checkBotPermission e s w)"
    and r: "fst (checkUserRole e s w)"
    by (simp_all add: passesChecks_def)
  from p have c1: "checkBotPermission e s w = (True, w)"
    using checkBotPermission_True [of e s w] by (cases "checkBotPermission e s w") simp
  from r have c2: "checkUserRole e s w = (True, w)"
    using checkUserRole_True [of e s w] by (cases "checkUserRole e s w") simp
  show ?thesis
    by (simp add: enableChecks_def g c1 c2 case_prod_beta split: list.splits)
qed

lemma enableChecks_exists:
  assumes "x \<in> set (users w)" and "u_userId x = s_userId s"
  shows "fst (enableChecks e s w) \<noteq> None"
proof
  assume "fst (enableChecks e s w) = None"
  from enableChecks_None [OF this] assms show False by blast
qed

lemma createUser_simps [simp]:
  "messages (createUser u g c ts x w) = messages w"
  "timers (createUser u g c ts x w) = timers w"
  "trace (createUser u g c ts x w) = trace w"
  "now (createUser u g c ts x w) = now w"
  "logs (createUser u g c ts x w) = logs w"
  "message_seq (createUser u g c ts x w) = message_seq w"
  "user_seq (createUser u g c ts x w) = Suc (user_seq w)"
  "users (createUser u g c ts x w) = users w @
     [\<lparr>u_id = user_seq w, u_userId = u, u_guildId = g, u_channelId = c,
       enabledAt = ts, expiresAt = x\<rparr>]"
  by (simp_all add: createUser_def)

lemma enableFinish_users [simp]: "users (snd (enableFinish e s ts x w)) = users w"
  by (simp add: enableFinish_def Let_def split: option.splits list.splits)

lemma enableFinish_not_replied [simp]: "\<not> isReplied (fst (enableFinish e s ts x w))"
  by (simp add: enableFinish_def Let_def split: option.splits list.splits)

lemma enable_cases:
  "(isReplied (fst (enable e s w)) \<and> sameState w (snd (enable e s w)))
   \<or> (\<not> isReplied (fst (enable e s w)) \<and> passesChecks e s w
        \<and> (\<forall>x \<in> set (users w). u_userId x \<noteq> s_userId s)
        \<and> length (sessionsIn (guildOf s) w) < maxUsers (config e)
        \<and> enable e s w =
            enableFinish e s (now w) (timeClip (of_int (now w) + maxDuration (config e) * 1000))
              (createUser (s_userId s) (guildOf s) (s_channelId s) (now w)
                 (timeClip (of_int (now w) + maxDuration (config e) * 1000)) w))"
proof (cases "fst (enableChecks e s w)")
  case (Some r)
  then have "enable e s w = (Replied r, snd (enableChecks e s w))"
    by (cases "enableChecks e s w") (simp add: enable_def)
  with enableChecks_frame [of w e s] show ?thesis by simp
next
  case None
  from enableChecks_None [OF None]
  have pc: "passesChecks e s w" and nu: "\<forall>x \<in> set (users w). u_userId x \<noteq> s_userId s"
    and same: "snd (enableChecks e s w) = w" by blast+
  from None same have ec: "enableChecks e s w = (None, w)"
    by (cases "enableChecks e s w") simp
  show ?thesis
  proof (cases "enableCapacity e s w")
    case (Some r)
    with ec have "enable e s w = (Replied r, w)" by (simp add: enable_def)
    then show ?thesis by simp
  next
    case None
    then have cap: "length (sessionsIn (guildOf s) w) < maxUsers (config e)"
      by (simp add: enableCapacity_def sessionsIn_def Let_def split: if_splits)
    from None ec have "enable e s w =
            enableFinish e s (now w) (timeClip (of_int (now w) + maxDuration (config e) * 1000))
              (createUser (s_userId s) (guildOf s) (s_channelId s) (now w)
                 (timeClip (of_int (now w) + maxDuration (config e) * 1000)) w)"
      by (simp add: enable_def Let_def)
    with pc nu cap show ?thesis by simp
  qed
qed

lemma enable_rejects_existing:
  assumes "x \<in> set (users w)" and "u_userId x = s_userId s"
  shows "isReplied (fst (enable e s w)) \<and> sameState w (snd (enable e s w))"
  using enable_cases [of e s w] assms by blast

lemma enable_rejects_full:
  assumes "maxUsers (config e) \<le> length (sessionsIn (guildOf s) w)"
  shows "isReplied (fst (enable e s w)) \<and> sameState w (snd (enable e s w))"
  using enable_cases [of e s w] assms by auto

lemma filter_id_ex: "\<exists>P. xs = filter P xs"
  by (rule exI [of _ "\<lambda>_. True"]) simp

lemma filter_filter_ex:
  "\<exists>P. ys = filter P xs \<Longrightarrow> \<exists>Q. zs = filter Q ys \<Longrightarrow> \<exists>R. zs = filter R xs"
  by (metis filter_filter)

lemma burn_users_ex: "\<exists>P. users (burnAfterReading e u g c b w) = filter P (users w)"
  unfolding burn_users by blast

lemma disable_users_ex: "\<exists>P. users (snd (disable e s w)) = filter P (users w)"
proof -
  have a: "users (snd (guildInfo e b g w)) = users w" for b g
    using guildInfo_frame [of w e b g] by (simp add: sameState_def)
  have b: "\<exists>P. users (burnAfterReading e u g c bt (emit ev w)) = filter P (users w)" for u g c bt ev
    using burn_users_ex [of e u g c bt "emit ev w"] by simp
  have c: "\<exists>P. users (burnAfterReading e u g c bt (createMessageCatch e l m u' g' c' ts (emit ev w)))
             = filter P (users w)" for u g c bt l m u' g' c' ts ev
    using burn_users_ex [of e u g c bt "createMessageCatch e l m u' g' c' ts (emit ev w)"] by simp
  show ?thesis
    using a b c
    by (simp add: disable_def Let_def case_prod_beta filter_id_ex
        split: list.splits option.splits)
qed

lemma onExpire_users_ex: "\<exists>P. users (onExpire e t w) = filter P (users w)"
proof -
  have b: "\<exists>P. users (burnAfterReading e u g c bt (emit ev (logger l x w))) = filter P (users w)"
    for u g c bt ev l x
    using burn_users_ex [of e u g c bt "emit ev (logger l x w)"] by simp
  have c: "\<exists>P. users (burnAfterReading e u g c bt
                  (createMessageCatch e l m u' g' c' ts (emit ev (logger l' x w))))
             = filter P (users w)" for u g c bt l m u' g' c' ts ev l' x
    using burn_users_ex [of e u g c bt "createMessageCatch e l m u' g' c' ts (emit ev (logger l' x w))"]
    by simp
  show ?thesis
    using b c
    by (simp add: onExpire_def Let_def filter_id_ex split: list.splits option.splits)
qed

lemma recoverOne_users_ex: "\<exists>P. users (recoverOne e x w) = filter P (users w)"
  by (simp add: recoverOne_def burn_users_ex filter_id_ex split: list.splits)

lemma recover_users_ex: "\<exists>P. users (recover e xs w) = filter P (users w)"
proof (induction xs arbitrary: w)
  case Nil
  show ?case by (simp add: filter_id_ex)
next
  case (Cons x xs)
  from filter_filter_ex [OF recoverOne_users_ex Cons.IH [of "recoverOne e x w"]]
  show ?case by simp
qed

lemma onMessage_users [simp]: "users (onMessage e s w) = users w"
  by (simp add: onMessage_def storeMessageForRecall_def Let_def)

lemma exec_users:
  "(\<exists>P. users (exec e w op) = filter P (users w))
   \<or> (\<exists>row. users (exec e w op) = users w @ [row]
        \<and> (\<forall>x \<in> set (users w). u_userId x \<noteq> u_userId row)
        \<and> length (sessionsIn (u_guildId row) w) < maxUsers (config e))"
proof (cases op)
  case (Enable s)
  from enable_cases [of e s w] show ?thesis
  proof
    assume "isReplied (fst (enable e s w)) \<and> sameState w (snd (enable e s w))"
    then have "users (exec e w op) = users w" by (simp add: Enable sameState_def)
    then show ?thesis using filter_id_ex [of "users w"] by simp
  next
    assume a: "\<not> isReplied (fst (enable e s w)) \<and> passesChecks e s w
        \<and> (\<forall>x \<in> set (users w). u_userId x \<noteq> s_userId s)
        \<and> length (sessionsIn (guildOf s) w) < maxUsers (config e)
        \<and> enable e s w =
            enableFinish e s (now w) (timeClip (of_int (now w) + maxDuration (config e) * 1000))
              (createUser (s_userId s) (guildOf s) (s_channelId s) (now w)
                 (timeClip (of_int (now w) + maxDuration (config e) * 1000)) w)"
    then have "users (exec e w op) = users w @
       [\<lparr>u_id = user_seq w, u_userId = s_userId s, u_guildId = guildOf s,
         u_channelId = s_channelId s, enabledAt = now w,
         expiresAt = timeClip (of_int (now w) + maxDuration (config e) * 1000)\<rparr>]"
      by (simp add: Enable)
    with a show ?thesis by auto
  qed
next
  case (Disable s)
  then show ?thesis using disable_users_ex [of e s w] by simp
next
  case (Message s)
  then show ?thesis using filter_id_ex [of "users w"] by simp
next
  case (Expire k)
  show ?thesis
  proof (cases "k < length (timers w) \<and> firesAt (timers w ! k) \<le> now w")
    case True
    with Expire onExpire_users_ex [of e "timers w ! k" "w\<lparr>timers := take k (timers w) @ drop (Suc k) (timers w)\<rparr>"]
    show ?thesis by simp
  next
    case False
    with Expire show ?thesis using filter_id_ex [of "users w"] by auto
  qed
next
  case Ready
  then show ?thesis using recover_users_ex [of e "users w" w] by (simp add: onReady_def)
next
  case (Tick d)
  then show ?thesis using filter_id_ex [of "users w"] by simp
qed

lemma exec_uniqueUsers:
  assumes "uniqueUsers w"
  shows "uniqueUsers (exec e w op)"
  using exec_users [of e w op]
proof
  assume "\<exists>P. users (exec e w op) = filter P (users w)"
  with assms show ?thesis
    by (auto simp: uniqueUsers_def distinct_map_filter)
next
  assume "\<exists>row. users (exec e w op) = users w @ [row]
        \<and> (\<forall>x \<in> set (users w). u_userId x \<noteq> u_userId row)
        \<and> length (sessionsIn (u_guildId row) w) < maxUsers (config e)"
  then obtain row where row: "users (exec e w op) = users w @ [row]"
    and fresh: "\<forall>x \<in> set (users w). u_userId x \<noteq> u_userId row" by blast
  from fresh have "u_userId row \<notin> set (map u_userId (users w))" by auto
  with assms show ?thesis
    by (simp add: uniqueUsers_def row)
qed

lemma length_filter_filter_le:
  "length (filter Q (filter P xs)) \<le> length (filter Q xs)"
  by (induction xs) auto

lemma exec_withinCapacity:
  assumes "withinCapacity e w"
  shows "withinCapacity e (exec e w op)"
  using exec_users [of e w op]
proof
  assume "\<exists>P. users (exec e w op) = filter P (users w)"
  then obtain P where P: "users (exec e w op) = filter P (users w)" by blast
  show ?thesis
    unfolding withinCapacity_def sessionsIn_def P
  proof
    fix u assume "u \<in> set (filter P (users w))"
    then have "u \<in> set (users w)" by simp
    with assms have "length (filter (\<lambda>x. u_guildId x = u_guildId u) (users w)) \<le> maxUsers (config e)"
      by (simp add: withinCapacity_def sessionsIn_def)
    with length_filter_filter_le [of "\<lambda>x. u_guildId x = u_guildId u" P "users w"]
    show "length (filter (\<lambda>x. u_guildId x = u_guildId u) (filter P (users w))) \<le> maxUsers (config e)"
      by linarith
  qed
next
  assume "\<exists>row. users (exec e w op) = users w @ [row]
        \<and> (\<forall>x \<in> set (users w). u_userId x \<noteq> u_userId row)
        \<and> length (sessionsIn (u_guildId row) w) < maxUsers (config e)"
  then obtain row where row: "users (exec e w op) = users w @ [row]"
    and cap: "length (sessionsIn (u_guildId row) w) < maxUsers (config e)" by blast
  show ?thesis
    unfolding withinCapacity_def sessionsIn_def row
  proof
    fix u assume u: "u \<in> set (users w @ [row])"
    show "length (filter (\<lambda>x. u_guildId x = u_guildId u) (users w @ [row])) \<le> maxUsers (config e)"
    proof (cases "u_guildId u = u_guildId row")
      case True
      with cap show ?thesis by (simp add: sessionsIn_def)
    next
      case False
      with u have "u \<in> set (users w)" by auto
      with assms have "length (filter (\<lambda>x. u_guildId x = u_guildId u) (users w)) \<le> maxUsers (config e)"
        by (simp add: withinCapacity_def sessionsIn_def)
      with False show ?thesis by auto
    qed
  qed
qed

lemma run_uniqueUsers: "uniqueUsers w \<Longrightarrow> uniqueUsers (run e ops w)"
  unfolding run_def
  by (induction ops arbitrary: w) (simp_all add: exec_uniqueUsers)

lemma run_withinCapacity: "withinCapacity e w \<Longrightarrow> withinCapacity e (run e ops w)"
  unfolding run_def
  by (induction ops arbitrary: w) (simp_all add: exec_withinCapacity)

lemma filter_unique:
  "distinct (map f xs) \<Longrightarrow> x \<in> set xs \<Longrightarrow> filter (\<lambda>y. f y = f x) xs = [x]"
proof (induction xs)
  case Nil
  then show ?case by simp
next
  case (Cons a xs)
  show ?case
  proof (cases "x = a")
    case True
    from Cons.prems(1) have "f a \<notin> f ` set xs" by simp
    then have "\<forall>y \<in> set xs. f y \<noteq> f a" by (metis imageI)
    then have "filter (\<lambda>y. f y = f a) xs = []" by (simp add: filter_empty_conv)
    with True show ?thesis by simp
  next
    case False
    with Cons.prems have x: "x \<in> set xs" and d: "distinct (map f xs)" by auto
    from Cons.prems(1) have "f a \<notin> f ` set xs" by simp
    with x have "f a \<noteq> f x" by (metis imageI)
    with Cons.IH [OF d x] show ?thesis by simp
  qed
qed

lemma enable_elsewhere:
  assumes "uniqueUsers w" and "x \<in> set (users w)" and "u_userId x = s_userId s"
    and "u_guildId x \<noteq> guildOf s" and "passesChecks e s w"
  shows "fst (enable e s w) =
           Replied (AlreadyEnabledElsewhere (fst (guildInfo e (s_botId s) (u_guildId x) w)))"
proof -
  from filter_unique [of u_userId "users w" x] assms(1,2,3)
  have f: "filter (\<lambda>u. u_userId u = s_userId s) (users w) = [x]"
    by (simp add: uniqueUsers_def)
  from enableChecks_passed [OF assms(5)] f assms(4)
  have "enableChecks e s w =
          (Some (AlreadyEnabledElsewhere (fst (guildInfo e (s_botId s) (u_guildId x) w))),
           snd (guildInfo e (s_botId s) (u_guildId x) w))"
    by simp
  then show ?thesis by (simp add: enable_def)
qed

lemmas model_defs =
  enable_def enableChecks_def checkBotPermission_def checkUserRole_def enableCapacity_def
  enableFinish_def disable_def burnAfterReading_def batchRecallMessages_def ledgerOf_def
  createUser_def createMessage_def createMessageCatch_def scheduleExpiration_def
  emit_def logger_def sleep_def later_def timeoutDelay_def timeClip_def guildOf_def
  messageOf_def guildInfo_def demoEnv_def demoConfig_def emptyWorld_def Let_def

lemma sessionElsewhere_eq:
  "sessionElsewhere =
     \<lparr>users = [\<lparr>u_id = 1, u_userId = ''u'', u_guildId = ''h'', u_channelId = ''d'',
                  enabledAt = 0, expiresAt = 3600000\<rparr>],
       user_seq = 2, messages = [], message_seq = 1, timers = [], trace = [], logs = [],
       now = 0\<rparr>"
  by (simp add: sessionElsewhere_def createUser_def emptyWorld_def)

subsection \<open>Enable actions in flight together\<close>

text \<open>
  Run without another handler in between, the four steps of an enable action are the
  action itself.
\<close>

lemma enable_by_steps:
  "interleave e [0, 0, 0, 0] ([Checking s], w) = ([Ended (fst (enable e s w))], snd (enable e s w))"
  by (simp add: interleave_def stepAt_def enable_def Let_def
      split: prod.splits option.splits)

text \<open>
  Two enable actions of the same user in two groups that both read the session table
  before either writes to it are both accepted, and leave two session rows of that user.
\<close>

lemma race_same_user:
  "interleave demoEnv [0, 1, 0, 1, 0, 1, 0, 1]
     ([Checking cmdOn, Checking cmdOnElsewhere], emptyWorld 0) =
   ([Ended Silent, Ended Silent],
    \<lparr>users = [\<lparr>u_id = 1, u_userId = ''u'', u_guildId = ''g'', u_channelId = ''c'',
                 enabledAt = 0, expiresAt = 3600000\<rparr>,
               \<lparr>u_id = 2, u_userId = ''u'', u_guildId = ''h'', u_channelId = ''d'',
                 enabledAt = 0, expiresAt = 3600000\<rparr>],
      user_seq = 3,
      messages = [\<lparr>m_id = 1, messageId = ''on'', m_userId = ''u'', m_guildId = ''g'',
                    m_channelId = ''c'', sentAt = 0\<rparr>,
                  \<lparr>m_id = 2, messageId = ''n1'', m_userId = ''u'', m_guildId = ''g'',
                    m_channelId = ''c'', sentAt = 0\<rparr>,
                  \<lparr>m_id = 3, messageId = ''on2'', m_userId = ''u'', m_guildId = ''h'',
                    m_channelId = ''d'', sentAt = 0\<rparr>,
                  \<lparr>m_id = 4, messageId = ''n1'', m_userId = ''u'', m_guildId = ''h'',
                    m_channelId = ''d'', sentAt = 0\<rparr>],
      message_seq = 5,
      timers = [\<lparr>t_userId = ''u'', t_guildId = ''g'', t_channelId = ''c'',
                  t_botId = ''bot'', t_armedAt = 0, t_delay = 3600000\<rparr>,
                \<lparr>t_userId = ''u'', t_guildId = ''h'', t_channelId = ''d'',
                  t_botId = ''bot'', t_armedAt = 0, t_delay = 3600000\<rparr>],
      trace = [SendMessage ''bot'' ''c'' (EnabledNotice 3600 5),
               SendMessage ''bot'' ''d'' (EnabledNotice 3600 5)],
      logs = [], now = 0\<rparr>)"
  by (simp add: interleave_def stepAt_def model_defs cmdOn_def cmdOnElsewhere_def)

text \<open>
  The same for two users and the last free place of a group.
\<close>

lemma race_same_group:
  "users (snd (interleave singleEnv [0, 1, 0, 1, 0, 1, 0, 1]
     ([Checking cmdOn, Checking cmdOnOther], emptyWorld 0))) =
     [\<lparr>u_id = 1, u_userId = ''u'', u_guildId = ''g'', u_channelId = ''c'',
        enabledAt = 0, expiresAt = 3600000\<rparr>,
      \<lparr>u_id = 2, u_userId = ''v'', u_guildId = ''g'', u_channelId = ''c'',
        enabledAt = 0, expiresAt = 3600000\<rparr>]
   \<and> fst (interleave singleEnv [0, 1, 0, 1, 0, 1, 0, 1]
     ([Checking cmdOn, Checking cmdOnOther], emptyWorld 0)) = [Ended Silent, Ended Silent]"
  by (simp add: interleave_def stepAt_def singleEnv_def model_defs cmdOn_def cmdOnOther_def)

subsection \<open>Session uniqueness\<close>

text \<open>
  In every run in which the handlers follow one another, a session table with at most
  one row per user stays so. An enable command of a user who already has a session row,
  in whatever group, is rejected and changes neither table, nor timers, platform calls or
  clock. When that row is of another group and the command gets past the checks that come
  first (group context, the bot's permission, the user's role), the reply is the one that
  carries \<^verbatim>\<open>guildInfo\<close>, which contains the id of that group.
\<close>

lemma uniqueness_kept_by_whole_handlers:
  assumes "uniqueUsers w"
  shows "uniqueUsers (run e ops w)
       \<and> (\<forall>x \<in> set (users w). u_userId x = s_userId s \<longrightarrow>
            isReplied (fst (enable e s w)) \<and> sameState w (snd (enable e s w)))
       \<and> (\<forall>x \<in> set (users w).
            u_userId x = s_userId s \<and> u_guildId x \<noteq> guildOf s \<and> passesChecks e s w \<longrightarrow>
            (\<exists>info. fst (enable e s w) = Replied (AlreadyEnabledElsewhere info)
                     \<and> mentions info (u_guildId x)))"
proof (intro conjI ballI impI)
  show "uniqueUsers (run e ops w)"
    by (rule run_uniqueUsers [OF assms])
next
  fix x assume "x \<in> set (users w)" "u_userId x = s_userId s"
  then show "isReplied (fst (enable e s w))" "sameState w (snd (enable e s w))"
    using enable_rejects_existing [of x w s e] by blast+
next
  fix x assume x: "x \<in> set (users w)"
    and c: "u_userId x = s_userId s \<and> u_guildId x \<noteq> guildOf s \<and> passesChecks e s w"
  from enable_elsewhere [OF assms x] c guildInfo_mentions [of e "s_botId s" "u_guildId x" w]
  show "\<exists>info. fst (enable e s w) = Replied (AlreadyEnabledElsewhere info)
                     \<and> mentions info (u_guildId x)"
    by blast
qed

text \<open>
  A user with a session in group \<open>h\<close> who asks for one in group \<open>g\<close> is told about \<open>h\<close>.
\<close>

lemma uniqueness_kept_example:
  "uniqueUsers sessionElsewhere
   \<and> map u_userId (users sessionElsewhere) = [''u'']
   \<and> map u_guildId (users sessionElsewhere) = [''h'']
   \<and> s_userId cmdOn = ''u'' \<and> guildOf cmdOn = ''g''
   \<and> passesChecks demoEnv cmdOn sessionElsewhere
   \<and> uniqueUsers (run demoEnv [Enable cmdOn, Tick 5, Enable cmdOnElsewhere] sessionElsewhere)
   \<and> isReplied (fst (enable demoEnv cmdOn sessionElsewhere))
   \<and> sameState sessionElsewhere (snd (enable demoEnv cmdOn sessionElsewhere))
   \<and> fst (enable demoEnv cmdOn sessionElsewhere) = Replied (AlreadyEnabledElsewhere ''h'')
   \<and> mentions ''h'' ''h''"
proof -
  let ?x = "\<lparr>u_id = 1, u_userId = ''u'', u_guildId = ''h'', u_channelId = ''d'',
                  enabledAt = 0, expiresAt = 3600000\<rparr>"
  have u: "uniqueUsers sessionElsewhere"
    by (simp add: uniqueUsers_def sessionElsewhere_eq)
  have x: "?x \<in> set (users sessionElsewhere)"
    by (simp add: sessionElsewhere_eq)
  have i: "s_userId cmdOn = ''u''" "guildOf cmdOn = ''g''"
    by (simp_all add: cmdOn_def guildOf_def)
  have p: "passesChecks demoEnv cmdOn sessionElsewhere"
    by (simp add: passesChecks_def checkBotPermission_def checkUserRole_def guildOf_def
        cmdOn_def demoEnv_def)
  note t = uniqueness_kept_by_whole_handlers [OF u, of demoEnv "[Enable cmdOn, Tick 5, Enable cmdOnElsewhere]" cmdOn]
  from t [THEN conjunct2, THEN conjunct1, rule_format, OF x] i
  have r: "isReplied (fst (enable demoEnv cmdOn sessionElsewhere))"
      "sameState sessionElsewhere (snd (enable demoEnv cmdOn sessionElsewhere))"
    by simp_all
  have v: "fst (enable demoEnv cmdOn sessionElsewhere) = Replied (AlreadyEnabledElsewhere ''h'')"
    by (simp add: sessionElsewhere_eq model_defs cmdOn_def)
  have m: "mentions ''h'' ''h''" by simp
  have l: "map u_userId (users sessionElsewhere) = [''u'']"
      "map u_guildId (users sessionElsewhere) = [''h'']"
    by (simp_all add: sessionElsewhere_eq)
  from u l i p t [THEN conjunct1] r v m show ?thesis by blast
qed

text \<open>
  Claim C1 fails on the code when two enable actions of one user overlap. From an empty
  session table, the actions of user \<open>u\<close> in groups \<open>g\<close> and \<open>h\<close> both query the table
  by user before either writes its row; neither finds a session, both are accepted, and
  the table holds two sessions of \<open>u\<close>, in two groups.
\<close>

theorem session_uniqueness_race:
  "users (emptyWorld 0) = []
   \<and> s_userId cmdOn = ''u'' \<and> s_userId cmdOnElsewhere = ''u''
   \<and> fst (interleave demoEnv [0, 1, 0, 1, 0, 1, 0, 1]
            ([Checking cmdOn, Checking cmdOnElsewhere], emptyWorld 0)) = [Ended Silent, Ended Silent]
   \<and> map u_userId (users (snd (interleave demoEnv [0, 1, 0, 1, 0, 1, 0, 1]
            ([Checking cmdOn, Checking cmdOnElsewhere], emptyWorld 0)))) = [''u'', ''u'']
   \<and> map u_guildId (users (snd (interleave demoEnv [0, 1, 0, 1, 0, 1, 0, 1]
            ([Checking cmdOn, Checking cmdOnElsewhere], emptyWorld 0)))) = [''g'', ''h'']
   \<and> uniqueUsers (snd (interleave demoEnv [0, 1, 0, 1, 0, 1, 0, 1]
            ([Checking cmdOn, Checking cmdOnElsewhere], emptyWorld 0))) = False"
proof -
  have a: "users (emptyWorld 0) = []" "s_userId cmdOn = ''u''" "s_userId cmdOnElsewhere = ''u''"
    by (simp_all add: emptyWorld_def cmdOn_def cmdOnElsewhere_def)
  have d: "fst (interleave demoEnv [0, 1, 0, 1, 0, 1, 0, 1]
            ([Checking cmdOn, Checking cmdOnElsewhere], emptyWorld 0)) = [Ended Silent, Ended Silent]"
      "map u_userId (users (snd (interleave demoEnv [0, 1, 0, 1, 0, 1, 0, 1]
            ([Checking cmdOn, Checking cmdOnElsewhere], emptyWorld 0)))) = [''u'', ''u'']"
      "map u_guildId (users (snd (interleave demoEnv [0, 1, 0, 1, 0, 1, 0, 1]
            ([Checking cmdOn, Checking cmdOnElsewhere], emptyWorld 0)))) = [''g'', ''h'']"
    unfolding race_same_user by simp_all
  have u: "uniqueUsers (snd (interleave demoEnv [0, 1, 0, 1, 0, 1, 0, 1]
            ([Checking cmdOn, Checking cmdOnElsewhere], emptyWorld 0))) = False"
    unfolding uniqueUsers_def d(2) by simp
  from a d u show ?thesis by blast
qed

subsection \<open>Group capacity\<close>

lemma sessionsIn_le:
  assumes "withinCapacity e w"
  shows "length (sessionsIn g w) \<le> maxUsers (config e)"
proof (cases "sessionsIn g w")
  case Nil
  then show ?thesis by simp
next
  case (Cons u us)
  then have "u \<in> set (sessionsIn g w)" by simp
  then have "u \<in> set (users w)" "u_guildId u = g" by (simp_all add: sessionsIn_def)
  with assms show ?thesis by (auto simp: withinCapacity_def)
qed

lemma enable_full:
  assumes "passesChecks e s w" and "\<forall>x \<in> set (users w). u_userId x \<noteq> s_userId s"
    and "maxUsers (config e) \<le> length (sessionsIn (guildOf s) w)"
  shows "enable e s w = (Replied (GroupFull (maxUsers (config e))), w)"
proof -
  from assms(2) have "filter (\<lambda>u. u_userId u = s_userId s) (users w) = []"
    by (simp add: filter_empty_conv)
  with enableChecks_passed [OF assms(1)] have "enableChecks e s w = (None, w)" by simp
  moreover from assms(3) have "enableCapacity e s w = Some (GroupFull (maxUsers (config e)))"
    by (simp add: enableCapacity_def sessionsIn_def)
  ultimately show ?thesis by (simp add: enable_def)
qed

text \<open>
  In every run in which the handlers follow one another, no group gets more sessions
  than \<open>maxUsers\<close>, and an enable command for a full group is rejected without a change.
\<close>

lemma capacity_kept_by_whole_handlers:
  assumes "withinCapacity e w"
  shows "length (sessionsIn g (run e ops w)) \<le> maxUsers (config e)
       \<and> (maxUsers (config e) \<le> length (sessionsIn (guildOf s) w) \<longrightarrow>
            isReplied (fst (enable e s w)) \<and> sameState w (snd (enable e s w)))
       \<and> (maxUsers (config e) \<le> length (sessionsIn (guildOf s) w) \<and> passesChecks e s w
            \<and> (\<forall>x \<in> set (users w). u_userId x \<noteq> s_userId s) \<longrightarrow>
            enable e s w = (Replied (GroupFull (maxUsers (config e))), w))"
  using sessionsIn_le [OF run_withinCapacity [OF assms]] enable_rejects_full [of e s w]
    enable_full [of e s w]
  by blast

lemma capacity_kept_example:
  "withinCapacity singleEnv oneSession
   \<and> maxUsers (config singleEnv) = 1
   \<and> length (sessionsIn (guildOf cmdOnOther) oneSession) = 1
   \<and> passesChecks singleEnv cmdOnOther oneSession
   \<and> enable singleEnv cmdOnOther oneSession = (Replied (GroupFull 1), oneSession)
   \<and> sameState oneSession (snd (enable singleEnv cmdOnOther oneSession))
   \<and> length (sessionsIn ''g'' (run singleEnv [Enable cmdOnOther, Message hello, Enable cmdOn] oneSession)) \<le> 1"
proof -
  have c: "withinCapacity singleEnv oneSession"
    by (simp add: withinCapacity_def sessionsIn_def oneSession_eq singleEnv_def demoEnv_def demoConfig_def)
  have m: "maxUsers (config singleEnv) = 1"
    by (simp add: singleEnv_def demoEnv_def demoConfig_def)
  have l: "length (sessionsIn (guildOf cmdOnOther) oneSession) = 1"
    by (simp add: sessionsIn_def oneSession_eq guildOf_def cmdOnOther_def)
  have p: "passesChecks singleEnv cmdOnOther oneSession"
    by (simp add: passesChecks_def checkBotPermission_def checkUserRole_def guildOf_def
        cmdOnOther_def singleEnv_def demoEnv_def)
  have f: "\<forall>x \<in> set (users oneSession). u_userId x \<noteq> s_userId cmdOnOther"
    by (simp add: oneSession_eq cmdOnOther_def)
  note t = capacity_kept_by_whole_handlers [OF c, of "''g''" "[Enable cmdOnOther, Message hello, Enable cmdOn]" cmdOnOther]
  from t [THEN conjunct2, THEN conjunct2] m l p f
  have r: "enable singleEnv cmdOnOther oneSession = (Replied (GroupFull 1), oneSession)"
    by simp
  from t [THEN conjunct2, THEN conjunct1] m l
  have s: "sameState oneSession (snd (enable singleEnv cmdOnOther oneSession))"
    by simp
  from t [THEN conjunct1] m
  have q: "length (sessionsIn ''g'' (run singleEnv [Enable cmdOnOther, Message hello, Enable cmdOn] oneSession)) \<le> 1"
    by simp
  from c m l p r s q show ?thesis by blast
qed

text \<open>
  Claim C6 fails on the code when two enable actions for the same group overlap. With
  \<open>maxUsers = 1\<close> and an empty table, both actions count the sessions of the group before
  either writes its row; both are accepted, and the group holds two sessions.
\<close>

theorem group_capacity_race:
  "maxUsers (config singleEnv) = 1
   \<and> users (emptyWorld 0) = []
   \<and> fst (interleave singleEnv [0, 1, 0, 1, 0, 1, 0, 1]
            ([Checking cmdOn, Checking cmdOnOther], emptyWorld 0)) = [Ended Silent, Ended Silent]
   \<and> map u_userId (users (snd (interleave singleEnv [0, 1, 0, 1, 0, 1, 0, 1]
            ([Checking cmdOn, Checking cmdOnOther], emptyWorld 0)))) = [''u'', ''v'']
   \<and> map u_guildId (users (snd (interleave singleEnv [0, 1, 0, 1, 0, 1, 0, 1]
            ([Checking cmdOn, Checking cmdOnOther], emptyWorld 0)))) = [''g'', ''g'']
   \<and> length (sessionsIn ''g'' (snd (interleave singleEnv [0, 1, 0, 1, 0, 1, 0, 1]
            ([Checking cmdOn, Checking cmdOnOther], emptyWorld 0)))) = 2"
proof -
  have a: "maxUsers (config singleEnv) = 1" "users (emptyWorld 0) = []"
    by (simp_all add: singleEnv_def demoEnv_def demoConfig_def emptyWorld_def)
  note r = race_same_group
  have c: "map u_guildId (users (snd (interleave singleEnv [0, 1, 0, 1, 0, 1, 0, 1]
            ([Checking cmdOn, Checking cmdOnOther], emptyWorld 0)))) = [''g'', ''g'']"
      "map u_userId (users (snd (interleave singleEnv [0, 1, 0, 1, 0, 1, 0, 1]
            ([Checking cmdOn, Checking cmdOnOther], emptyWorld 0)))) = [''u'', ''v'']"
    unfolding r [THEN conjunct1] by simp_all
  have d: "length (sessionsIn ''g'' (snd (interleave singleEnv [0, 1, 0, 1, 0, 1, 0, 1]
            ([Checking cmdOn, Checking cmdOnOther], emptyWorld 0)))) = 2"
    unfolding sessionsIn_def r [THEN conjunct1] by simp
  from a r [THEN conjunct2] c d show ?thesis by blast
qed

subsection \<open>Enabling, then disabling at once\<close>

lemma schedule_seq [simp]:
  "message_seq (scheduleExpiration u g c x b w) = message_seq w"
  "user_seq (scheduleExpiration u g c x b w) = user_seq w"
  by (simp_all add: scheduleExpiration_def Let_def)

lemma ledgerOf_append:
  "messages w' = messages w @ rows \<Longrightarrow>
   ledgerOf u g w' = ledgerOf u g w @ filter (\<lambda>m. m_userId m = u \<and> m_guildId m = g) rows"
  by (simp add: ledgerOf_def)

lemma burn_ledger_cleared:
  assumes "\<forall>m \<in> set (ledgerOf u g w). deleteMessage e b (m_channelId m) (messageId m)"
  shows "ledgerOf u g (burnAfterReading e u g c b w) = []"
proof -
  have "\<forall>r \<in> set (messages (burnAfterReading e u g c b w)). \<not> (m_userId r = u \<and> m_guildId r = g)"
    unfolding burn_messages
  proof
    fix r
    assume r: "r \<in> set (filter (\<lambda>r. \<forall>m\<in>set (ledgerOf u g w). m_id m = m_id r \<longrightarrow>
                    \<not> deleteMessage e b (m_channelId m) (messageId m)) (messages w))"
    show "\<not> (m_userId r = u \<and> m_guildId r = g)"
    proof
      assume "m_userId r = u \<and> m_guildId r = g"
      with r have "r \<in> set (ledgerOf u g w)" by (simp add: ledgerOf_def)
      with r assms show False by auto
    qed
  qed
  then show ?thesis by (simp add: ledgerOf_def filter_empty_conv)
qed

lemma stored_filter_users:
  "stored u g w \<longleftrightarrow> filter (\<lambda>x. u_userId x = u \<and> u_guildId x = g) (users w) \<noteq> []"
  by (auto simp: stored_def filter_empty_conv)

lemma disable_burns:
  assumes "guildOf s' \<noteq> []" and "stored (s_userId s') (guildOf s') w"
    and "sendMessage e (s_botId s') (s_channelId s') (ClosedNotice (recallDelay (config e)))
           = Some (n2 # r2)"
    and "\<not> createFails e n2"
  shows "disable e s' w =
           (Silent,
            burnAfterReading e (s_userId s') (guildOf s') (s_channelId s') (s_botId s')
              (createMessage n2 (s_userId s') (guildOf s') (s_channelId s') (now w)
                 (emit (SendMessage (s_botId s') (s_channelId s')
                          (ClosedNotice (recallDelay (config e)))) w)))"
proof -
  from assms(2) obtain x xs
    where "filter (\<lambda>u. u_userId u = s_userId s' \<and> u_guildId u = guildOf s') (users w) = x # xs"
    unfolding stored_filter_users by (meson list.exhaust)
  with assms(1,3,4) show ?thesis
    by (simp add: disable_def Let_def createMessageCatch_def)
qed

lemma disable_events:
  assumes "guildOf s' \<noteq> []" and "stored (s_userId s') (guildOf s') w"
    and "sendMessage e (s_botId s') (s_channelId s') (ClosedNotice (recallDelay (config e)))
           = Some (n2 # r2)"
    and "\<not> createFails e n2"
  shows "newEvents w (snd (disable e s' w)) =
           SendMessage (s_botId s') (s_channelId s') (ClosedNotice (recallDelay (config e)))
           # Sleep (recallDelay (config e) * 1000)
           # paced (Sleep (batchRecallInterval (config e) * 1000))
               (map (deletionOf (s_botId s'))
                  (ledgerOf (s_userId s') (guildOf s') w
                   @ [\<lparr>m_id = message_seq w, messageId = n2, m_userId = s_userId s',
                        m_guildId = guildOf s', m_channelId = s_channelId s', sentAt = now w\<rparr>]))
           @ [SendMessage (s_botId s') (s_channelId s') ThanksNotice]"
proof -
  let ?w' = "createMessage n2 (s_userId s') (guildOf s') (s_channelId s') (now w)
                 (emit (SendMessage (s_botId s') (s_channelId s')
                          (ClosedNotice (recallDelay (config e)))) w)"
  have l: "ledgerOf (s_userId s') (guildOf s') ?w' =
             ledgerOf (s_userId s') (guildOf s') w
             @ [\<lparr>m_id = message_seq w, messageId = n2, m_userId = s_userId s',
                  m_guildId = guildOf s', m_channelId = s_channelId s', sentAt = now w\<rparr>]"
    by (simp add: ledgerOf_def)
  show ?thesis
    unfolding disable_burns [OF assms] newEvents_def
    by (simp add: burn_trace l)
qed

text \<open>
  Claim C8, as the code has it. After an accepted enable command and, with nothing
  captured in between, the disable command of the same user in the same group, the
  platform has been called as follows: the activation notice, the closing notice, the
  sleep of \<open>recallDelay\<close>, then three deletions and not none -- the message of the enable
  command, the activation notice, the closing notice -- with the interval sleep between
  them, and at last the completion notice. Three notices have been sent; the first two
  were captured and are deleted, the completion notice is sent after the last deletion
  and gets no ledger row. The session is gone, and the ledger of the user is empty when
  the three deletions succeed. When the listener has captured the message of the disable
  command, that message is deleted as well, before the closing notice.
\<close>

theorem enable_then_disable:
  fixes e :: env and s s' :: Session and w :: world
  assumes act: "fst (enable e s w) = Silent"
    and same: "s_userId s' = s_userId s" "guildOf s' = guildOf s"
    and empty: "ledgerOf (s_userId s) (guildOf s) w = []"
    and n1: "sendMessage e (s_botId s) (s_channelId s)
               (EnabledNotice (maxDuration (config e)) (recallDelay (config e))) = Some (n1 # r1)"
            "\<not> createFails e n1"
    and n2: "sendMessage e (s_botId s') (s_channelId s')
               (ClosedNotice (recallDelay (config e))) = Some (n2 # r2)"
            "\<not> createFails e n2"
  defines "w1 \<equiv> snd (enable e s w)"
  defines "w2 \<equiv> snd (disable e s' w1)"
  shows "fst (disable e s' w1) = Silent
       \<and> newEvents w w2 =
           [SendMessage (s_botId s) (s_channelId s)
              (EnabledNotice (maxDuration (config e)) (recallDelay (config e))),
            SendMessage (s_botId s') (s_channelId s') (ClosedNotice (recallDelay (config e))),
            Sleep (recallDelay (config e) * 1000),
            DeleteMessage (s_botId s') (s_channelId s) (messageOf s),
            Sleep (batchRecallInterval (config e) * 1000),
            DeleteMessage (s_botId s') (s_channelId s) n1,
            Sleep (batchRecallInterval (config e) * 1000),
            DeleteMessage (s_botId s') (s_channelId s') n2,
            SendMessage (s_botId s') (s_channelId s') ThanksNotice]
       \<and> map messageId (ledgerOf (s_userId s) (guildOf s) w1) = [messageOf s, n1]
       \<and> message_seq w2 = message_seq w + 3
       \<and> \<not> stored (s_userId s) (guildOf s) w2
       \<and> (deleteMessage e (s_botId s') (s_channelId s) (messageOf s)
            \<and> deleteMessage e (s_botId s') (s_channelId s) n1
            \<and> deleteMessage e (s_botId s') (s_channelId s') n2
            \<longrightarrow> ledgerOf (s_userId s) (guildOf s) w2 = [])
       \<and> (messageOf s' \<noteq> [] \<and> \<not> createFails e (messageOf s') \<longrightarrow>
            filter isDeletion (newEvents w1 (snd (disable e s' (onMessage e s' w1)))) =
              [DeleteMessage (s_botId s') (s_channelId s) (messageOf s),
               DeleteMessage (s_botId s') (s_channelId s) n1,
               DeleteMessage (s_botId s') (s_channelId s') (messageOf s'),
               DeleteMessage (s_botId s') (s_channelId s') n2])"
proof -
  let ?u = "s_userId s" and ?g = "guildOf s" and ?c = "s_channelId s" and ?b = "s_botId s"
  let ?c' = "s_channelId s'" and ?b' = "s_botId s'"
  let ?x = "timeClip (of_int (now w) + maxDuration (config e) * 1000)"
  let ?EN = "EnabledNotice (maxDuration (config e)) (recallDelay (config e))"
  let ?CN = "ClosedNotice (recallDelay (config e))"
  let ?row = "\<lparr>u_id = user_seq w, u_userId = ?u, u_guildId = ?g, u_channelId = ?c,
               enabledAt = now w, expiresAt = ?x\<rparr>"
  let ?rOn = "\<lparr>m_id = message_seq w, messageId = messageOf s, m_userId = ?u, m_guildId = ?g,
               m_channelId = ?c, sentAt = now w\<rparr>"
  let ?rN1 = "\<lparr>m_id = Suc (message_seq w), messageId = n1, m_userId = ?u, m_guildId = ?g,
               m_channelId = ?c, sentAt = now w\<rparr>"
  let ?rN2 = "\<lparr>m_id = Suc (Suc (message_seq w)), messageId = n2, m_userId = ?u, m_guildId = ?g,
               m_channelId = ?c', sentAt = now w + int (elapsed e (now w))\<rparr>"
  from act have nr: "\<not> isReplied (fst (enable e s w))" by simp
  with enable_cases [of e s w]
  have pc: "passesChecks e s w" and fresh: "\<forall>x \<in> set (users w). u_userId x \<noteq> ?u"
    and en: "enable e s w = enableFinish e s (now w) ?x (createUser ?u ?g ?c (now w) ?x w)"
    by blast+
  from pc have g: "guildOf s' \<noteq> []" by (simp add: passesChecks_def same)
  have w1_eq: "w1 = createMessage n1 ?u ?g ?c (now w)
                  (emit (SendMessage ?b ?c ?EN)
                    (scheduleExpiration ?u ?g ?c ?x ?b
                      (later e
                        (createMessage (messageOf s) ?u ?g ?c (now w)
                          (createUser ?u ?g ?c (now w) ?x w)))))"
    unfolding w1_def en
    by (simp add: enableFinish_def Let_def n1 createMessageCatch_def)
  have u1: "users w1 = users w @ [?row]"
    and m1: "messages w1 = messages w @ [?rOn, ?rN1]"
    and t1: "trace w1 = trace w @ [SendMessage ?b ?c ?EN]"
    and c1: "now w1 = now w + int (elapsed e (now w))"
    and q1: "message_seq w1 = Suc (Suc (message_seq w))"
    unfolding w1_eq by simp_all
  have st: "stored (s_userId s') (guildOf s') w1"
    by (simp add: stored_def u1 same)
  have l1: "ledgerOf ?u ?g w1 = [?rOn, ?rN1]"
    using ledgerOf_append [OF m1, of ?u ?g] empty by simp
  note db = disable_burns [OF g st n2]
  have ev1: "newEvents w1 w2 =
           [SendMessage ?b' ?c' ?CN,
            Sleep (recallDelay (config e) * 1000),
            DeleteMessage ?b' ?c (messageOf s),
            Sleep (batchRecallInterval (config e) * 1000),
            DeleteMessage ?b' ?c n1,
            Sleep (batchRecallInterval (config e) * 1000),
            DeleteMessage ?b' ?c' n2,
            SendMessage ?b' ?c' ThanksNotice]"
    unfolding w2_def disable_events [OF g st n2]
    by (simp add: same l1 deletionOf_def q1 c1)
  define ys where "ys = newEvents w1 w2"
  have tr2: "trace w2 = trace w1 @ ys"
    unfolding ys_def w2_def db newEvents_def
    by (simp add: burn_trace)
  have "newEvents w w2 = SendMessage ?b ?c ?EN # ys"
    by (simp add: newEvents_def tr2 t1)
  then have ev: "newEvents w w2 = SendMessage ?b ?c ?EN # newEvents w1 w2"
    by (simp add: ys_def)
  let ?w1' = "createMessage n2 ?u ?g ?c' (now w1) (emit (SendMessage ?b' ?c' ?CN) w1)"
  have w2_eq: "w2 = burnAfterReading e ?u ?g ?c' ?b' ?w1'"
    by (simp add: w2_def db same)
  have l1': "ledgerOf ?u ?g ?w1' = [?rOn, ?rN1, ?rN2]"
    by (simp add: ledgerOf_def m1 q1 c1) (use empty in \<open>simp add: ledgerOf_def\<close>)
  have sq: "message_seq w2 = message_seq w + 3"
    unfolding w2_eq by (simp add: burn_frame q1)
  have ns: "\<not> stored ?u ?g w2"
    unfolding w2_eq by (rule burn_not_stored)
  have cl: "deleteMessage e ?b' ?c (messageOf s) \<and> deleteMessage e ?b' ?c n1
            \<and> deleteMessage e ?b' ?c' n2 \<longrightarrow> ledgerOf ?u ?g w2 = []"
    unfolding w2_eq
    by (intro impI burn_ledger_cleared) (simp add: l1')
  have listener: "filter isDeletion (newEvents w1 (snd (disable e s' (onMessage e s' w1)))) =
              [DeleteMessage ?b' ?c (messageOf s), DeleteMessage ?b' ?c n1,
               DeleteMessage ?b' ?c' (messageOf s'), DeleteMessage ?b' ?c' n2]"
    if m: "messageOf s' \<noteq> []" and f: "\<not> createFails e (messageOf s')"
  proof -
    let ?w = "onMessage e s' w1"
    have om: "?w = createMessage (messageOf s') ?u ?g ?c' (now w1) w1"
      using g m f st
      by (simp add: onMessage_def storeMessageForRecall_def createMessageCatch_def
          stored_filter_users same)
    have st': "stored (s_userId s') (guildOf s') ?w"
      using st by (simp add: stored_def)
    have lw: "ledgerOf ?u ?g ?w =
                [?rOn, ?rN1,
                 \<lparr>m_id = Suc (Suc (message_seq w)), messageId = messageOf s', m_userId = ?u,
                    m_guildId = ?g, m_channelId = ?c', sentAt = now w + int (elapsed e (now w))\<rparr>]"
      unfolding om using l1 by (simp add: ledgerOf_def q1 c1)
    have "newEvents w1 (snd (disable e s' ?w)) = newEvents ?w (snd (disable e s' ?w))"
      by (simp add: newEvents_def om)
    then show ?thesis
      unfolding disable_events [OF g st' n2]
      by (simp add: same lw deletionOf_def)
  qed
  from db have "fst (disable e s' w1) = Silent" by simp
  with ev ev1 l1 sq ns cl listener show ?thesis by simp
qed

lemma demo_enable:
  "enable demoEnv cmdOn (emptyWorld 0) =
     (Silent,
      \<lparr>users = [\<lparr>u_id = 1, u_userId = ''u'', u_guildId = ''g'', u_channelId = ''c'',
                   enabledAt = 0, expiresAt = 3600000\<rparr>],
        user_seq = 2,
        messages = [\<lparr>m_id = 1, messageId = ''on'', m_userId = ''u'', m_guildId = ''g'',
                      m_channelId = ''c'', sentAt = 0\<rparr>,
                    \<lparr>m_id = 2, messageId = ''n1'', m_userId = ''u'', m_guildId = ''g'',
                      m_channelId = ''c'', sentAt = 0\<rparr>],
        message_seq = 3,
        timers = [\<lparr>t_userId = ''u'', t_guildId = ''g'', t_channelId = ''c'',
                    t_botId = ''bot'', t_armedAt = 0, t_delay = 3600000\<rparr>],
        trace = [SendMessage ''bot'' ''c'' (EnabledNotice 3600 5)], logs = [], now = 0\<rparr>)"
  by (simp add: model_defs cmdOn_def)

lemma demo_enable_disable:
  "disable demoEnv cmdOff (snd (enable demoEnv cmdOn (emptyWorld 0))) =
     (Silent,
      \<lparr>users = [], user_seq = 2, messages = [], message_seq = 4,
        timers = [\<lparr>t_userId = ''u'', t_guildId = ''g'', t_channelId = ''c'',
                    t_botId = ''bot'', t_armedAt = 0, t_delay = 3600000\<rparr>],
        trace = [SendMessage ''bot'' ''c'' (EnabledNotice 3600 5),
                 SendMessage ''bot'' ''c'' (ClosedNotice 5), Sleep 5000,
                 DeleteMessage ''bot'' ''c'' ''on'', Sleep 1000,
                 DeleteMessage ''bot'' ''c'' ''n1'', Sleep 1000,
                 DeleteMessage ''bot'' ''c'' ''n2'',
                 SendMessage ''bot'' ''c'' ThanksNotice],
        logs = [(Info, RecallStarted ''u'' 3), (Info, Recalled ''on''),
                (Info, Recalled ''n1''), (Info, Recalled ''n2''),
                (Info, RecallFinished ''u'')],
        now = 7000\<rparr>)"
  unfolding demo_enable
  by (simp add: model_defs cmdOff_def)

text \<open>
  The two commands on the demo platform, from an empty world.
\<close>

theorem enable_then_disable_witness:
  "fst (enable demoEnv cmdOn (emptyWorld 0)) = Silent
   \<and> s_userId cmdOff = s_userId cmdOn \<and> guildOf cmdOff = guildOf cmdOn
   \<and> ledgerOf (s_userId cmdOn) (guildOf cmdOn) (emptyWorld 0) = []
   \<and> sendMessage demoEnv ''bot'' ''c'' (EnabledNotice 3600 5) = Some [''n1'']
   \<and> sendMessage demoEnv ''bot'' ''c'' (ClosedNotice 5) = Some [''n2'']
   \<and> \<not> createFails demoEnv ''n1'' \<and> \<not> createFails demoEnv ''n2''
   \<and> newEvents (emptyWorld 0)
        (snd (disable demoEnv cmdOff (snd (enable demoEnv cmdOn (emptyWorld 0))))) =
       [SendMessage ''bot'' ''c'' (EnabledNotice 3600 5),
        SendMessage ''bot'' ''c'' (ClosedNotice 5),
        Sleep 5000,
        DeleteMessage ''bot'' ''c'' ''on'', Sleep 1000,
        DeleteMessage ''bot'' ''c'' ''n1'', Sleep 1000,
        DeleteMessage ''bot'' ''c'' ''n2'',
        SendMessage ''bot'' ''c'' ThanksNotice]
   \<and> ledgerOf ''u'' ''g'' (snd (disable demoEnv cmdOff (snd (enable demoEnv cmdOn (emptyWorld 0))))) = []"
proof -
  have a: "fst (enable demoEnv cmdOn (emptyWorld 0)) = Silent"
    by (simp add: demo_enable)
  have i: "s_userId cmdOn = ''u''" "guildOf cmdOn = ''g''" "s_channelId cmdOn = ''c''"
      "s_botId cmdOn = ''bot''" "messageOf cmdOn = ''on''"
      "s_userId cmdOff = ''u''" "guildOf cmdOff = ''g''" "s_channelId cmdOff = ''c''"
      "s_botId cmdOff = ''bot''"
    by (simp_all add: cmdOn_def cmdOff_def guildOf_def messageOf_def)
  have c: "maxDuration (config demoEnv) = 3600" "recallDelay (config demoEnv) = 5"
      "batchRecallInterval (config demoEnv) = 1"
    by (simp_all add: demoEnv_def demoConfig_def)
  have b1: "s_userId cmdOff = s_userId cmdOn" and b2: "guildOf cmdOff = guildOf cmdOn"
    by (simp_all add: i)
  have l: "ledgerOf (s_userId cmdOn) (guildOf cmdOn) (emptyWorld 0) = []"
    by (simp add: ledgerOf_def emptyWorld_def)
  have s1: "sendMessage demoEnv (s_botId cmdOn) (s_channelId cmdOn)
              (EnabledNotice (maxDuration (config demoEnv)) (recallDelay (config demoEnv)))
            = Some (''n1'' # [])"
    and s2: "sendMessage demoEnv (s_botId cmdOff) (s_channelId cmdOff)
              (ClosedNotice (recallDelay (config demoEnv))) = Some (''n2'' # [])"
    and f1: "\<not> createFails demoEnv ''n1''" and f2: "\<not> createFails demoEnv ''n2''"
    by (simp_all add: demoEnv_def)
  have d: "deleteMessage demoEnv ''bot'' ''c'' ''on''" "deleteMessage demoEnv ''bot'' ''c'' ''n1''"
      "deleteMessage demoEnv ''bot'' ''c'' ''n2''"
    by (simp_all add: demoEnv_def)
  note t = enable_then_disable [OF a b1 b2 l s1 f1 s2 f2]
  from t [THEN conjunct2, THEN conjunct1]
  have ev: "newEvents (emptyWorld 0)
        (snd (disable demoEnv cmdOff (snd (enable demoEnv cmdOn (emptyWorld 0))))) =
       [SendMessage ''bot'' ''c'' (EnabledNotice 3600 5),
        SendMessage ''bot'' ''c'' (ClosedNotice 5),
        Sleep 5000,
        DeleteMessage ''bot'' ''c'' ''on'', Sleep 1000,
        DeleteMessage ''bot'' ''c'' ''n1'', Sleep 1000,
        DeleteMessage ''bot'' ''c'' ''n2'',
        SendMessage ''bot'' ''c'' ThanksNotice]"
    by (simp add: i c)
  from t [THEN conjunct2, THEN conjunct2, THEN conjunct2, THEN conjunct2, THEN conjunct2] d
  have cl: "ledgerOf ''u'' ''g''
              (snd (disable demoEnv cmdOff (snd (enable demoEnv cmdOn (emptyWorld 0))))) = []"
    by (simp add: i)
  from s1 s2 have s: "sendMessage demoEnv ''bot'' ''c'' (EnabledNotice 3600 5) = Some [''n1'']"
      "sendMessage demoEnv ''bot'' ''c'' (ClosedNotice 5) = Some [''n2'']"
    by (simp_all add: i c)
  from a b1 b2 l s f1 f2 ev cl show ?thesis by blast
qed

text \<open>
  Claim C8 as stated fails on that run: three deletions are attempted and three notices
  are sent.
\<close>

theorem enable_then_disable_counterexample:
  "messages (emptyWorld 0) = []
   \<and> filter isDeletion
         (trace (snd (disable demoEnv cmdOff (snd (enable demoEnv cmdOn (emptyWorld 0)))))) =
       [DeleteMessage ''bot'' ''c'' ''on'', DeleteMessage ''bot'' ''c'' ''n1'',
        DeleteMessage ''bot'' ''c'' ''n2'']
   \<and> filter isSend
         (trace (snd (disable demoEnv cmdOff (snd (enable demoEnv cmdOn (emptyWorld 0)))))) =
       [SendMessage ''bot'' ''c'' (EnabledNotice 3600 5),
        SendMessage ''bot'' ''c'' (ClosedNotice 5),
        SendMessage ''bot'' ''c'' ThanksNotice]"
  by (simp add: demo_enable_disable) (simp add: emptyWorld_def)

subsection \<open>The ledger sequence\<close>

text \<open>
  The ids of the ledger rows are distinct and rise along the ledger in every world that a
  run reaches from an empty one, so the assumptions made on them above hold there.
\<close>

lemma ledgerOk_same:
  "messages w' = messages w \<Longrightarrow> message_seq w' = message_seq w \<Longrightarrow> ledgerOk w \<Longrightarrow> ledgerOk w'"
  by (simp add: ledgerOk_def)

lemma ledgerOk_filter:
  "messages w' = filter P (messages w) \<Longrightarrow> message_seq w' = message_seq w \<Longrightarrow>
   ledgerOk w \<Longrightarrow> ledgerOk w'"
  by (simp add: ledgerOk_def sorted_wrt_map sorted_wrt_filter)

lemma ledgerOk_createMessage: "ledgerOk w \<Longrightarrow> ledgerOk (createMessage m u g c ts w)"
  by (auto simp: ledgerOk_def sorted_wrt_append less_Suc_eq)

lemma ledgerOk_createMessageCatch:
  "ledgerOk w \<Longrightarrow> ledgerOk (createMessageCatch e l m u g c ts w)"
  by (simp add: createMessageCatch_def ledgerOk_createMessage ledgerOk_same [of "logger Warn l w" w])

lemma ledgerOk_emit: "ledgerOk w \<Longrightarrow> ledgerOk (emit ev w)"
  by (rule ledgerOk_same) simp_all

lemma ledgerOk_logger: "ledgerOk w \<Longrightarrow> ledgerOk (logger l t w)"
  by (rule ledgerOk_same) simp_all

lemma ledgerOk_schedule: "ledgerOk w \<Longrightarrow> ledgerOk (scheduleExpiration u g c x b w)"
  by (rule ledgerOk_same) simp_all

lemma ledgerOk_later: "ledgerOk w \<Longrightarrow> ledgerOk (later e w)"
  by (rule ledgerOk_same) simp_all

lemma ledgerOk_createUser: "ledgerOk w \<Longrightarrow> ledgerOk (createUser u g c ts x w)"
  by (rule ledgerOk_same) simp_all

lemma ledgerOk_burn: "ledgerOk w \<Longrightarrow> ledgerOk (burnAfterReading e u g c b w)"
  by (rule ledgerOk_filter [OF burn_messages]) (simp add: burn_frame)

lemma ledgerOk_onExpire: "ledgerOk w \<Longrightarrow> ledgerOk (onExpire e t w)"
  by (simp add: onExpire_def Let_def ledgerOk_burn ledgerOk_createMessageCatch ledgerOk_emit
      ledgerOk_logger split: option.splits list.splits)

lemma ledgerOk_guildInfo: "ledgerOk w \<Longrightarrow> ledgerOk (snd (guildInfo e b g w))"
  using guildInfo_frame [of w e b g] by (auto simp: sameState_def intro: ledgerOk_same)

lemma ledgerOk_disable: "ledgerOk w \<Longrightarrow> ledgerOk (snd (disable e s w))"
  by (simp add: disable_def Let_def case_prod_beta ledgerOk_burn ledgerOk_createMessageCatch
      ledgerOk_emit ledgerOk_guildInfo split: option.splits list.splits)

lemma ledgerOk_enableFinish: "ledgerOk w \<Longrightarrow> ledgerOk (snd (enableFinish e s ts x w))"
  by (simp add: enableFinish_def Let_def ledgerOk_createMessageCatch ledgerOk_createMessage
      ledgerOk_emit ledgerOk_schedule ledgerOk_later split: option.splits list.splits)

lemma ledgerOk_enable:
  assumes "ledgerOk w"
  shows "ledgerOk (snd (enable e s w))"
  using enable_cases [of e s w]
proof
  assume "isReplied (fst (enable e s w)) \<and> sameState w (snd (enable e s w))"
  with assms show ?thesis by (auto simp: sameState_def intro: ledgerOk_same)
next
  assume "\<not> isReplied (fst (enable e s w)) \<and> passesChecks e s w
        \<and> (\<forall>x \<in> set (users w). u_userId x \<noteq> s_userId s)
        \<and> length (sessionsIn (guildOf s) w) < maxUsers (config e)
        \<and> enable e s w =
            enableFinish e s (now w) (timeClip (of_int (now w) + maxDuration (config e) * 1000))
              (createUser (s_userId s) (guildOf s) (s_channelId s) (now w)
                 (timeClip (of_int (now w) + maxDuration (config e) * 1000)) w)"
  then have "enable e s w =
            enableFinish e s (now w) (timeClip (of_int (now w) + maxDuration (config e) * 1000))
              (createUser (s_userId s) (guildOf s) (s_channelId s) (now w)
                 (timeClip (of_int (now w) + maxDuration (config e) * 1000)) w)"
    by blast
  with assms show ?thesis
    by (simp add: ledgerOk_enableFinish ledgerOk_createUser)
qed

lemma ledgerOk_onMessage: "ledgerOk w \<Longrightarrow> ledgerOk (onMessage e s w)"
  by (simp add: onMessage_def storeMessageForRecall_def Let_def ledgerOk_createMessageCatch)

lemma ledgerOk_recoverOne: "ledgerOk w \<Longrightarrow> ledgerOk (recoverOne e x w)"
  by (simp add: recoverOne_def ledgerOk_burn ledgerOk_schedule ledgerOk_later split: list.splits)

lemma ledgerOk_recover: "ledgerOk w \<Longrightarrow> ledgerOk (recover e xs w)"
  by (induction xs arbitrary: w) (simp_all add: ledgerOk_recoverOne)

lemma ledgerOk_exec: "ledgerOk w \<Longrightarrow> ledgerOk (exec e w op)"
proof (cases op)
  case (Expire k)
  assume "ledgerOk w"
  then have "ledgerOk (w\<lparr>timers := take k (timers w) @ drop (Suc k) (timers w)\<rparr>)"
    by (rule ledgerOk_same [rotated 2]) simp_all
  with \<open>ledgerOk w\<close> Expire show ?thesis by (simp add: ledgerOk_onExpire)
next
  case (Tick d)
  assume "ledgerOk w"
  then have "ledgerOk (w\<lparr>now := now w + int d\<rparr>)"
    by (rule ledgerOk_same [rotated 2]) simp_all
  with Tick show ?thesis by simp
qed (simp_all add: ledgerOk_enable ledgerOk_disable ledgerOk_onMessage onReady_def
      ledgerOk_logger ledgerOk_recover)

lemma ledgerOk_run: "ledgerOk w \<Longrightarrow> ledgerOk (run e ops w)"
  unfolding run_def
  by (induction ops arbitrary: w) (simp_all add: ledgerOk_exec)

lemma ledgerOk_emptyWorld: "ledgerOk (emptyWorld t)"
  by (simp add: ledgerOk_def emptyWorld_def)

lemma ledgerOk_distinct: "ledgerOk w \<Longrightarrow> distinct (map m_id (messages w)) \<and> ledgerOrdered w"
  by (simp add: ledgerOk_def ledgerOrdered_def strict_sorted_iff)

lemma reachable_ledger:
  "distinct (map m_id (messages (run e ops (emptyWorld t))))
   \<and> ledgerOrdered (run e ops (emptyWorld t))"
  by (rule ledgerOk_distinct [OF ledgerOk_run [OF ledgerOk_emptyWorld]])

end
